theory Spec2Isabelle
  imports Complex_Main
begin

section \<open>Data model of espnff.py\<close>

text \<open>
  The exceptions the module raises, as values. The three league exceptions carry their
  message. \<open>AttributeError\<close>, \<open>IndexError\<close>, \<open>NameError\<close>, \<open>TypeError\<close> and
  \<open>KeyError\<close> are the Python run-time errors the modelled methods can run into, and
  \<open>JSONDecodeError\<close> is what \<open>r.json()\<close> raises on a body that is not JSON. \<open>DanglingReference\<close> is no Python error: the
  model keeps the Team objects in a list and refers to them by position, and a position
  beyond that list stands for a reference to no object, which no Python state contains.
\<close>

datatype error =
    PrivateLeagueException string
  | InvalidLeagueException string
  | UnknownLeagueException string
  | AttributeError
  | IndexError
  | NameError string
  | TypeError
  | KeyError string
  | JSONDecodeError
  | DanglingReference

text \<open>
  The JSON of a team and of a scoreboard entry, restricted to the fields the module
  reads. A week of a team's \<open>scheduleItems\<close> is its \<open>matchups[0]\<close> entry;
  \<open>awayTeamScore\<close> and \<open>homeTeamScore\<close> stand for \<open>awayTeamScores[0]\<close> and
  \<open>homeTeamScores[0]\<close>. Scores are JSON numbers, modelled as reals: the module only
  subtracts two scores and tests the sign of the difference, and for the finite numbers
  of JSON the sign, and the difference 0 of a score with itself, are those of the reals.
\<close>

record schedule_item =
  isBye :: bool
  awayTeamId :: int
  homeTeamId :: int
  awayTeamScore :: real
  homeTeamScore :: real

record team_data =
  teamId :: int
  ownerName :: string
  pointsFor :: real
  scheduleItems :: "schedule_item list"

text \<open>
  The body of a response, as \<open>r.json()\<close> sees it: not JSON at all, a JSON value that
  is no object, or an object. Of the object of the league settings the module reads
  \<open>data['error'][0]['message']\<close> and \<open>data['leaguesettings']['teams']\<close>:
  \<open>error_entries\<close> is the list under \<open>error\<close>, if the key is there, each entry
  with its \<open>message\<close>, if it has one, and \<open>settings_teams\<close> the teams, in the order of
  the dictionary, if the keys are there.
\<close>

datatype 'a json_body = NotJson | JsonOther | JsonObject 'a

record settings_data =
  error_entries :: "string option list option"
  settings_teams :: "team_data list option"

record settings_response =
  status_code :: int
  body :: "settings_data json_body"

record matchup_team =
  mt_teamId :: int
  mt_score :: real
  mt_home :: bool

record matchup_data =
  md_teams :: "matchup_team list"
  md_bye :: bool

record scoreboard_data =
  sb_error_entries :: "string option list option"
  sb_matchups :: "matchup_data list option"

record scoreboard_response =
  sb_status_code :: int
  sb_body :: "scoreboard_data json_body"

text \<open>
  An entry of \<open>Team.schedule\<close> is the raw \<open>opponentId\<close> until \<open>_fetch_teams\<close>
  replaces it with the Team instance of that id; \<open>TeamObj a\<close> is the reference to the
  Team object at position \<open>a\<close> of the object list. Of the attributes of a Team the
  record keeps those that the methods modelled here read; \<open>owner\<close> is the first and the
  last name of the first owner, joined by a space, and arrives joined in \<open>ownerName\<close>.
\<close>

datatype opponent = OpponentId int | TeamObj nat

record team =
  team_id :: int
  owner :: string
  points_for :: real
  schedule :: "opponent list"
  scores :: "real list"
  mov :: "real list"

text \<open>
  A League: its Team objects (\<open>objs\<close>, in creation order), the list \<open>self.teams\<close> of
  references to them, and \<open>self.status\<close>.
\<close>

record league =
  league_id :: int
  year :: int
  objs :: "team list"
  teams :: "nat list"
  status :: int

text \<open>
  \<open>home_team\<close> and \<open>away_team\<close> of a Matchup hold a team id, later a Team instance,
  or \<open>None\<close>.
\<close>

record matchup =
  home_team :: "opponent option"
  home_score :: "real option"
  away_team :: "opponent option"
  away_score :: "real option"

section \<open>Matchup\<close>

text \<open>
  \<open>Matchup._fetch_matchup_info\<close>. The branch taken is returned next to the object built,
  so that the reachability of each branch can be stated. \<open>data['teams'][0]\<close> and
  \<open>data['teams'][1]\<close> raise IndexError on a list that is too short.
\<close>

datatype branch = FirstBranch | SecondBranch | ElseBranch

definition teams_item :: "matchup_data \<Rightarrow> nat \<Rightarrow> error + matchup_team" where
  "teams_item d i = (if i < length (md_teams d) then Inr (md_teams d ! i) else Inl IndexError)"

definition fetch_matchup_info_traced :: "matchup_data \<Rightarrow> error + (branch \<times> matchup)" where
  "fetch_matchup_info_traced d =
     (case teams_item d 0 of
        Inl e \<Rightarrow> Inl e
      | Inr t0 \<Rightarrow>
          if mt_home t0 \<and> \<not> md_bye d then
            (case teams_item d 1 of
               Inl e \<Rightarrow> Inl e
             | Inr t1 \<Rightarrow>
                 Inr (FirstBranch,
                      \<lparr>home_team = Some (OpponentId (mt_teamId t0)), home_score = Some (mt_score t0),
                       away_team = Some (OpponentId (mt_teamId t1)), away_score = Some (mt_score t1)\<rparr>))
          else if mt_home t0 \<and> \<not> md_bye d then
            (case teams_item d 1 of
               Inl e \<Rightarrow> Inl e
             | Inr t1 \<Rightarrow>
                 Inr (SecondBranch,
                      \<lparr>home_team = Some (OpponentId (mt_teamId t1)), home_score = Some (mt_score t1),
                       away_team = Some (OpponentId (mt_teamId t0)), away_score = Some (mt_score t0)\<rparr>))
          else
            Inr (ElseBranch,
                 \<lparr>home_team = Some (OpponentId (mt_teamId t0)), home_score = Some (mt_score t0),
                  away_team = None, away_score = None\<rparr>))"

definition Matchup_init :: "matchup_data \<Rightarrow> error + matchup" where
  "Matchup_init d = map_sum id snd (fetch_matchup_info_traced d)"

section \<open>Team\<close>

text \<open>
  \<open>Team._fetch_schedule\<close>: the score and the opponent id of one schedule item, then the
  loop that appends them to \<open>scores\<close> and \<open>schedule\<close>.
\<close>

definition schedule_entry :: "int \<Rightarrow> schedule_item \<Rightarrow> real \<times> int" where
  "schedule_entry self_id m =
     (if \<not> isBye m then
        (if awayTeamId m = self_id then (awayTeamScore m, homeTeamId m)
         else (homeTeamScore m, awayTeamId m))
      else (homeTeamScore m, homeTeamId m))"

fun fetch_schedule :: "team \<Rightarrow> schedule_item list \<Rightarrow> team" where
  "fetch_schedule t [] = t"
| "fetch_schedule t (m # ms) =
     (case schedule_entry (team_id t) m of
        (score, opponentId) \<Rightarrow>
          fetch_schedule (t\<lparr>scores := scores t @ [score],
                           schedule := schedule t @ [OpponentId opponentId]\<rparr>) ms)"

definition Team_init :: "team_data \<Rightarrow> team" where
  "Team_init d =
     fetch_schedule
       \<lparr>team_id = teamId d, owner = ownerName d, points_for = pointsFor d,
        schedule = [], scores = [], mov = []\<rparr>
       (scheduleItems d)"

section \<open>League construction\<close>

text \<open>
  Reading a Team object through a reference. The references that \<open>_fetch_teams\<close> puts
  into \<open>self.teams\<close> and into the schedules all point to objects; the tests
  \<open>a < length h\<close> below only keep the functions defined on every list.
\<close>

definition deref :: "team list \<Rightarrow> nat \<Rightarrow> error + team" where
  "deref h a = (if a < length h then Inr (h ! a) else Inl DanglingReference)"

text \<open>
  The innermost loop of the linking pass of \<open>_fetch_teams\<close>: the raw id \<open>m\<close> of a week
  is compared with the id of every team in turn, and each team that matches overwrites
  the entry, so the last one stays.
\<close>

fun link_opponent :: "team list \<Rightarrow> nat list \<Rightarrow> opponent \<Rightarrow> opponent \<Rightarrow> opponent" where
  "link_opponent h [] m cur = cur"
| "link_opponent h (a # as) m cur =
     link_opponent h as m (if a < length h \<and> m = OpponentId (team_id (h ! a)) then TeamObj a else cur)"

definition link_schedule :: "team list \<Rightarrow> nat list \<Rightarrow> opponent list \<Rightarrow> opponent list" where
  "link_schedule h ts sched = map (\<lambda>m. link_opponent h ts m m) sched"

fun link_teams :: "nat list \<Rightarrow> nat list \<Rightarrow> team list \<Rightarrow> team list" where
  "link_teams ts [] h = h"
| "link_teams ts (a # as) h =
     link_teams ts as
       (if a < length h then h[a := (h ! a)\<lparr>schedule := link_schedule h ts (schedule (h ! a))\<rparr>]
        else h)"

text \<open>
  The margin-of-victory pass: \<open>team.scores[week] - opponent.scores[week]\<close> for every
  week of the schedule. An entry that is still a raw id has no \<open>scores\<close> attribute; a
  score list that is too short raises IndexError. The difference is taken over the
  reals; the properties below use only its sign and that the difference of a score with
  itself is 0.
\<close>

definition score_at :: "real list \<Rightarrow> nat \<Rightarrow> error + real" where
  "score_at xs week = (if week < length xs then Inr (xs ! week) else Inl IndexError)"

fun margins :: "team list \<Rightarrow> real list \<Rightarrow> nat \<Rightarrow> opponent list \<Rightarrow> error + real list" where
  "margins h own week [] = Inr []"
| "margins h own week (opp # rest) =
     (case score_at own week of
        Inl e \<Rightarrow> Inl e
      | Inr s \<Rightarrow>
          (case opp of
             OpponentId i \<Rightarrow> Inl AttributeError
           | TeamObj b \<Rightarrow>
               (case deref h b of
                  Inl e \<Rightarrow> Inl e
                | Inr ot \<Rightarrow>
                    (case score_at (scores ot) week of
                       Inl e \<Rightarrow> Inl e
                     | Inr os \<Rightarrow>
                         (case margins h own (Suc week) rest of
                            Inl e \<Rightarrow> Inl e
                          | Inr ms \<Rightarrow> Inr ((s - os) # ms))))))"

fun calc_mov :: "nat list \<Rightarrow> team list \<Rightarrow> error + team list" where
  "calc_mov [] h = Inr h"
| "calc_mov (a # as) h =
     (case deref h a of
        Inl e \<Rightarrow> Inl e
      | Inr t \<Rightarrow>
          (case margins h (scores t) 0 (schedule t) of
             Inl e \<Rightarrow> Inl e
           | Inr ms \<Rightarrow> calc_mov as (h[a := t\<lparr>mov := mov t @ ms\<rparr>])))"

text \<open>\<open>sorted(self.teams, key=lambda x: x.team_id)\<close>: Python's sort is stable.\<close>

definition sort_by_id :: "team list \<Rightarrow> nat list \<Rightarrow> nat list" where
  "sort_by_id h ts = sort_key (\<lambda>a. team_id (h ! a)) ts"

text \<open>
  \<open>League._fetch_teams\<close>: a Team per entry of \<open>data['leaguesettings']['teams']\<close>, the
  linking pass, the margin pass, the sort by id.
\<close>

definition fetch_teams :: "league \<Rightarrow> team_data list \<Rightarrow> error + league" where
  "fetch_teams L ds =
     (let h0 = objs L @ map Team_init ds;
          ts = teams L @ [length (objs L) ..< length h0];
          h1 = link_teams ts ts h0
      in case calc_mov ts h1 of
           Inl e \<Rightarrow> Inl e
         | Inr h2 \<Rightarrow> Inr (L\<lparr>objs := h2, teams := sort_by_id h2 ts\<rparr>))"

text \<open>Python's \<open>'%s' % n\<close> for an integer.\<close>

fun digits_of :: "nat \<Rightarrow> string" where
  "digits_of n =
     (if n < 10 then [char_of (48 + n)] else digits_of (n div 10) @ [char_of (48 + n mod 10)])"

declare digits_of.simps [simp del]

definition str_of_int :: "int \<Rightarrow> string" where
  "str_of_int i = (if i < 0 then CHR ''-'' # digits_of (nat (- i)) else digits_of (nat i))"

text \<open>
  \<open>data['error'][0]['message']\<close> and \<open>data[key]\<close> on the value that \<open>r.json()\<close>
  returned. Subscripting a JSON value that is no object with a string raises TypeError,
  a missing key raises KeyError, an empty list under \<open>error\<close> raises IndexError.
\<close>

fun first_message :: "string option list option json_body \<Rightarrow> error + string" where
  "first_message NotJson = Inl JSONDecodeError"
| "first_message JsonOther = Inl TypeError"
| "first_message (JsonObject None) = Inl (KeyError ''error'')"
| "first_message (JsonObject (Some [])) = Inl IndexError"
| "first_message (JsonObject (Some (None # es))) = Inl (KeyError ''message'')"
| "first_message (JsonObject (Some (Some m # es))) = Inr m"

fun member_of :: "string \<Rightarrow> 'x option json_body \<Rightarrow> error + 'x" where
  "member_of key NotJson = Inl JSONDecodeError"
| "member_of key JsonOther = Inl TypeError"
| "member_of key (JsonObject None) = Inl (KeyError key)"
| "member_of key (JsonObject (Some x)) = Inr x"

text \<open>
  \<open>League._fetch_league\<close>, with the response of \<open>requests.get\<close> as its input, and
  \<open>League.__init__\<close>. The status is stored, then \<open>r.json()\<close> parses the body, before
  any test of the status; the message of the exception for 401 and 404 is read from the
  parsed body. The last case is the call of \<open>_fetch_teams\<close>, whose first statement
  reads the teams from the parsed body.
\<close>

definition fetch_league :: "league \<Rightarrow> settings_response \<Rightarrow> error + league" where
  "fetch_league L r =
     (let L1 = L\<lparr>status := status_code r\<rparr> in
      if body r = NotJson then Inl JSONDecodeError
      else if status L1 = 401 then
        (case first_message (map_json_body error_entries (body r)) of
           Inl e \<Rightarrow> Inl e
         | Inr m \<Rightarrow> Inl (PrivateLeagueException m))
      else if status L1 = 404 then
        (case first_message (map_json_body error_entries (body r)) of
           Inl e \<Rightarrow> Inl e
         | Inr m \<Rightarrow> Inl (InvalidLeagueException m))
      else if status L1 \<noteq> 200 then
        Inl (UnknownLeagueException (''Unknown '' @ str_of_int (status L1) @ '' Error''))
      else
        (case member_of ''leaguesettings'' (map_json_body settings_teams (body r)) of
           Inl e \<Rightarrow> Inl e
         | Inr ds \<Rightarrow> fetch_teams L1 ds))"

definition League_init :: "int \<Rightarrow> int \<Rightarrow> settings_response \<Rightarrow> error + league" where
  "League_init lid yr r =
     fetch_league \<lparr>league_id = lid, year = yr, objs = [], teams = [], status = 0\<rparr> r"

section \<open>Power rankings\<close>

text \<open>The Python slice \<open>xs[:n]\<close>: a negative \<open>n\<close> drops the last \<open>-n\<close> elements.\<close>

definition slice_to :: "'a list \<Rightarrow> int \<Rightarrow> 'a list" where
  "slice_to xs n = (if 0 \<le> n then take (nat n) xs else take (length xs - nat (- n)) xs)"

text \<open>
  \<open>wins[opp] += 1\<close> on a Python list: a negative index counts from the end, an index
  outside \<open>-len .. len-1\<close> raises IndexError.
\<close>

definition incr_at :: "int list \<Rightarrow> int \<Rightarrow> error + int list" where
  "incr_at wins opp =
     (let n = int (length wins); j = (if opp < 0 then n + opp else opp)
      in if 0 \<le> j \<and> j < n then Inr (wins[nat j := wins ! nat j + 1]) else Inl IndexError)"

text \<open>
  The inner loop of \<open>power_rankings\<close> over the pairs of \<open>zip(team.mov[:week],
  team.schedule[:week])\<close>. \<open>opponent.team_id\<close> is read before the margin is tested, so an
  entry that is still a raw id raises AttributeError whatever the margin.
\<close>

fun count_wins :: "team list \<Rightarrow> (real \<times> opponent) list \<Rightarrow> int list \<Rightarrow> error + int list" where
  "count_wins h [] wins = Inr wins"
| "count_wins h ((m, opponent) # rest) wins =
     (case opponent of
        OpponentId i \<Rightarrow> Inl AttributeError
      | TeamObj b \<Rightarrow>
          (case deref h b of
             Inl e \<Rightarrow> Inl e
           | Inr ot \<Rightarrow>
               (let opp = team_id ot - 1 in
                if m > 0 then
                  (case incr_at wins opp of
                     Inl e \<Rightarrow> Inl e
                   | Inr wins' \<Rightarrow> count_wins h rest wins')
                else count_wins h rest wins)))"

definition week_pairs :: "team \<Rightarrow> int \<Rightarrow> (real \<times> opponent) list" where
  "week_pairs t week = zip (slice_to (mov t) week) (slice_to (schedule t) week)"

definition team_wins :: "team list \<Rightarrow> team \<Rightarrow> int \<Rightarrow> error + int list" where
  "team_wins h t week = count_wins h (week_pairs t week) (replicate 32 0)"

fun win_rows :: "team list \<Rightarrow> nat list \<Rightarrow> int \<Rightarrow> error + int list list" where
  "win_rows h [] week = Inr []"
| "win_rows h (a # as) week =
     (case deref h a of
        Inl e \<Rightarrow> Inl e
      | Inr t \<Rightarrow>
          (case team_wins h t week of
             Inl e \<Rightarrow> Inl e
           | Inr wins \<Rightarrow>
               (case win_rows h as week of
                  Inl e \<Rightarrow> Inl e
                | Inr rows \<Rightarrow> Inr (wins # rows))))"

definition teams_sorted :: "league \<Rightarrow> nat list" where
  "teams_sorted L = sort_by_id (objs L) (teams L)"

definition win_matrix :: "league \<Rightarrow> int \<Rightarrow> error + int list list" where
  "win_matrix L week = win_rows (objs L) (teams_sorted L) week"

subsection \<open>The helpers of \<open>utils\<close>\<close>

text \<open>
  Modelled from the spec: \<open>two_step_dominance\<close> of the module \<open>utils\<close>, which is not
  among the sources. Section 4.2 of the specification: the row-sum vector (the direct
  scores) is computed first, then the matrix-vector product of the win matrix with that
  vector, and the two are added. The matrix of \<open>power_rankings\<close> has one row per team and
  32 columns; the product pairs a row with the vector position by position, as far as
  both reach.
\<close>

definition direct_scores :: "int list list \<Rightarrow> int list" where
  "direct_scores X = map sum_list X"

text \<open>Modelled from the spec: the matrix-vector product of that section.\<close>

definition matrix_vector :: "int list list \<Rightarrow> int list \<Rightarrow> int list" where
  "matrix_vector X v = map (\<lambda>row. sum_list (map2 (*) row v)) X"

text \<open>Modelled from the spec: the sum of the two vectors, the result of the helper.\<close>

definition two_step_dominance :: "int list list \<Rightarrow> int list" where
  "two_step_dominance X = map2 (+) (direct_scores X) (matrix_vector X (direct_scores X))"

text \<open>
  Modelled from the spec: the same section in its own words, entry by entry.
  \<open>direct_score(i)\<close> is the sum over all \<open>j\<close> of \<open>matrix[i][j]\<close>, and
  \<open>indirect_score(i)\<close> the sum over all \<open>j\<close> of \<open>matrix[i][j]\<close> times
  \<open>direct_score(j)\<close>. A column with no row of its own belongs to no team and has the
  direct score 0.
\<close>

definition matrix_row :: "int list list \<Rightarrow> nat \<Rightarrow> int list" where
  "matrix_row X i = (if i < length X then X ! i else [])"

text \<open>Modelled from the spec: \<open>direct_score(i)\<close> of section 4.2.\<close>

definition direct_score :: "int list list \<Rightarrow> nat \<Rightarrow> int" where
  "direct_score X i = (\<Sum>j\<leftarrow>[0..<length (matrix_row X i)]. matrix_row X i ! j)"

text \<open>Modelled from the spec: \<open>indirect_score(i)\<close> of section 4.2.\<close>

definition indirect_score :: "int list list \<Rightarrow> nat \<Rightarrow> int" where
  "indirect_score X i =
     (\<Sum>j\<leftarrow>[0..<length (matrix_row X i)]. matrix_row X i ! j * direct_score X j)"

text \<open>
  Modelled from the spec: \<open>power_points\<close> of the module \<open>utils\<close>, which is not among the
  sources. Section 4.3 of the specification: the final score of a team combines its
  dominance score with its points per game through the week; the weighting is left open
  and is the parameter \<open>blend\<close>. At week 0 all teams are tied. The pairs (team, score)
  are ordered by score, highest first, equal scores by ascending team id.
\<close>

definition final_score :: "(int \<Rightarrow> real \<Rightarrow> real) \<Rightarrow> int \<Rightarrow> team \<Rightarrow> int \<Rightarrow> real" where
  "final_score blend d t week = (if week = 0 then 0 else blend d (points_for t / of_int week))"

text \<open>
  Modelled from the spec: the order of section 4.3, by descending score, ties by
  ascending team id.
\<close>

definition ranks_before :: "team list \<Rightarrow> nat \<times> real \<Rightarrow> nat \<times> real \<Rightarrow> bool" where
  "ranks_before h p q =
     (snd q < snd p \<or> (snd p = snd q \<and> team_id (h ! fst p) \<le> team_id (h ! fst q)))"

text \<open>Modelled from the spec: sorting by that order, by insertion.\<close>

fun insert_ranked :: "team list \<Rightarrow> nat \<times> real \<Rightarrow> (nat \<times> real) list \<Rightarrow> (nat \<times> real) list" where
  "insert_ranked h p [] = [p]"
| "insert_ranked h p (q # qs) =
     (if ranks_before h p q then p # q # qs else q # insert_ranked h p qs)"

fun sort_ranked :: "team list \<Rightarrow> (nat \<times> real) list \<Rightarrow> (nat \<times> real) list" where
  "sort_ranked h [] = []"
| "sort_ranked h (p # ps) = insert_ranked h p (sort_ranked h ps)"

text \<open>
  Modelled from the spec: \<open>power_points\<close> itself, from the dominance scores, the
  teams in the same order, and the week.
\<close>

definition power_points ::
  "(int \<Rightarrow> real \<Rightarrow> real) \<Rightarrow> team list \<Rightarrow> int list \<Rightarrow> nat list \<Rightarrow> int \<Rightarrow> (nat \<times> real) list" where
  "power_points blend h dominance ts week =
     sort_ranked h (map2 (\<lambda>d a. (a, final_score blend d (h ! a) week)) dominance ts)"

subsection \<open>\<open>League.power_rankings\<close>\<close>

text \<open>
  The method returns its result, or raises, and leaves a League behind: the second
  component is the League after the call. Every team reference of \<open>teams_sorted\<close> has
  been read by the time \<open>power_points\<close> is called.
\<close>

definition power_rankings ::
  "(int \<Rightarrow> real \<Rightarrow> real) \<Rightarrow> league \<Rightarrow> int \<Rightarrow> (error + (nat \<times> real) list) \<times> league" where
  "power_rankings blend L week =
     (case win_matrix L week of
        Inl e \<Rightarrow> (Inl e, L)
      | Inr wm \<Rightarrow>
          (let dominance_matrix = two_step_dominance wm;
               power_rank = power_points blend (objs L) dominance_matrix (teams_sorted L) week
           in (Inr power_rank, L)))"

section \<open>Scoreboard and simulation schedule\<close>

fun matchups_of :: "matchup_data list \<Rightarrow> error + matchup list" where
  "matchups_of [] = Inr []"
| "matchups_of (d # ds) =
     (case Matchup_init d of
        Inl e \<Rightarrow> Inl e
      | Inr m \<Rightarrow> (case matchups_of ds of Inl e \<Rightarrow> Inl e | Inr ms \<Rightarrow> Inr (m # ms)))"

text \<open>
  The linking loops of \<open>scoreboard\<close>: a side that equals the id of a team becomes that
  Team instance. A side that is already an instance, or \<open>None\<close>, equals no id.
\<close>

definition link_side :: "team \<Rightarrow> nat \<Rightarrow> opponent option \<Rightarrow> opponent option" where
  "link_side t a side = (if side = Some (OpponentId (team_id t)) then Some (TeamObj a) else side)"

definition link_matchup :: "team \<Rightarrow> nat \<Rightarrow> matchup \<Rightarrow> matchup" where
  "link_matchup t a m =
     (let m1 = m\<lparr>home_team := link_side t a (home_team m)\<rparr>
      in m1\<lparr>away_team := link_side t a (away_team m1)\<rparr>)"

fun link_matchups :: "team list \<Rightarrow> nat list \<Rightarrow> matchup list \<Rightarrow> error + matchup list" where
  "link_matchups h [] result = Inr result"
| "link_matchups h (a # as) result =
     (case deref h a of
        Inl e \<Rightarrow> Inl e
      | Inr t \<Rightarrow> link_matchups h as (map (link_matchup t a) result))"

text \<open>
  \<open>League.scoreboard\<close>, with the response of \<open>requests.get\<close> as its input. The status is
  stored before the body is parsed and the status tested, so the League is changed also
  when the method raises.
\<close>

definition scoreboard :: "league \<Rightarrow> scoreboard_response \<Rightarrow> (error + matchup list) \<times> league" where
  "scoreboard L r =
     (let L1 = L\<lparr>status := sb_status_code r\<rparr> in
      if sb_body r = NotJson then (Inl JSONDecodeError, L1)
      else if status L1 = 401 then
        (case first_message (map_json_body sb_error_entries (sb_body r)) of
           Inl e \<Rightarrow> (Inl e, L1)
         | Inr m \<Rightarrow> (Inl (PrivateLeagueException m), L1))
      else if status L1 = 404 then
        (case first_message (map_json_body sb_error_entries (sb_body r)) of
           Inl e \<Rightarrow> (Inl e, L1)
         | Inr m \<Rightarrow> (Inl (InvalidLeagueException m), L1))
      else if status L1 \<noteq> 200 then
        (Inl (UnknownLeagueException (''Unknown '' @ str_of_int (status L1) @ '' Error'')), L1)
      else
        (case member_of ''scoreboard'' (map_json_body sb_matchups (sb_body r)) of
           Inl e \<Rightarrow> (Inl e, L1)
         | Inr ms \<Rightarrow>
             (case matchups_of ms of
                Inl e \<Rightarrow> (Inl e, L1)
              | Inr result \<Rightarrow> (link_matchups (objs L1) (teams L1) result, L1))))"

text \<open>
  \<open>League.schedule_for_sim\<close>. A row of its result is
  \<open>[str(home_team.owner), str(away_team.owner), home_score, away_score, week]\<close>; a side
  that is a raw id or \<open>None\<close> has no \<open>owner\<close> attribute.
\<close>

record sim_row =
  row_home :: string
  row_away :: string
  row_home_score :: "real option"
  row_away_score :: "real option"
  row_week :: int

definition owner_of :: "team list \<Rightarrow> opponent option \<Rightarrow> error + string" where
  "owner_of h side =
     (case side of
        Some (TeamObj a) \<Rightarrow> map_sum id owner (deref h a)
      | _ \<Rightarrow> Inl AttributeError)"

fun sim_rows :: "team list \<Rightarrow> int \<Rightarrow> matchup list \<Rightarrow> error + sim_row list" where
  "sim_rows h week [] = Inr []"
| "sim_rows h week (each # rest) =
     (case owner_of h (home_team each) of
        Inl e \<Rightarrow> Inl e
      | Inr ho \<Rightarrow>
          (case owner_of h (away_team each) of
             Inl e \<Rightarrow> Inl e
           | Inr ao \<Rightarrow>
               (case sim_rows h week rest of
                  Inl e \<Rightarrow> Inl e
                | Inr rows \<Rightarrow>
                    Inr (\<lparr>row_home = ho, row_away = ao, row_home_score = home_score each,
                          row_away_score = away_score each, row_week = week\<rparr> # rows))))"

fun sim_weeks ::
  "(int \<Rightarrow> scoreboard_response) \<Rightarrow> int list \<Rightarrow> sim_row list \<Rightarrow> league \<Rightarrow> (error + sim_row list) \<times> league" where
  "sim_weeks boards [] sched L = (Inr sched, L)"
| "sim_weeks boards (week # weeks) sched L =
     (case scoreboard L (boards week) of
        (Inl e, L1) \<Rightarrow> (Inl e, L1)
      | (Inr ms, L1) \<Rightarrow>
          (case sim_rows (objs L1) week ms of
             Inl e \<Rightarrow> (Inl e, L1)
           | Inr rows \<Rightarrow> sim_weeks boards weeks (sched @ rows) L1))"

text \<open>
  What a name of the method can be bound to, as far as the loop bound
  \<open>data['leaguesettings']['finalRegularSeasonMatchupPeriodId']\<close> can tell: a dictionary
  that has this entry, or anything else. \<open>names_in_scope\<close> lists the names Python finds
  when the loop bound is evaluated: the locals of the method bound so far (\<open>self\<close>,
  \<open>schedule\<close>), the names bound at module level by the imports and the class
  statements, and the builtins the method uses; no builtin is called \<open>data\<close>.
\<close>

datatype pyval = SettingsDict int | OtherValue

definition names_in_scope :: "(string \<times> pyval) list" where
  "names_in_scope =
     [(''self'', OtherValue), (''schedule'', OtherValue),
      (''requests'', OtherValue), (''two_step_dominance'', OtherValue),
      (''power_points'', OtherValue), (''ESPNFFException'', OtherValue),
      (''PrivateLeagueException'', OtherValue), (''InvalidLeagueException'', OtherValue),
      (''UnknownLeagueException'', OtherValue), (''League'', OtherValue),
      (''Team'', OtherValue), (''Matchup'', OtherValue),
      (''range'', OtherValue), (''str'', OtherValue)]"

definition final_week_of :: "string \<Rightarrow> error + int" where
  "final_week_of name =
     (case map_of names_in_scope name of
        None \<Rightarrow> Inl (NameError name)
      | Some (SettingsDict n) \<Rightarrow> Inr n
      | Some OtherValue \<Rightarrow> Inl TypeError)"

definition schedule_for_sim ::
  "(int \<Rightarrow> scoreboard_response) \<Rightarrow> league \<Rightarrow> (error + sim_row list) \<times> league" where
  "schedule_for_sim boards L =
     (case final_week_of ''data'' of
        Inl e \<Rightarrow> (Inl e, L)
      | Inr n \<Rightarrow> sim_weeks boards [1..n] [] L)"

section \<open>\<open>power_rankings\<close> on a store of objects\<close>

text \<open>
  The same method once more, now with the objects it works on in a store, so that a
  list or a Team is an object with an address that every reference to it shares, and a
  write through one reference is seen through all. A value is an integer, a JSON number,
  a reference, or a tuple; an object is the League (its \<open>teams\<close> attribute, a
  reference to a list, and its status), a Team (the attributes that \<open>power_rankings\<close>
  and its helpers read; the three lists are references), or a list.
\<close>

datatype val = IntV int | NumV real | RefV nat | TupleV val val

record team_cell =
  cell_id :: int
  cell_points_for :: real
  cell_schedule :: nat
  cell_scores :: nat
  cell_mov :: nat

datatype obj = LeagueO nat int | TeamO team_cell | ListO "val list"

text \<open>
  Reading an attribute or the elements of an object. An integer, a number or a list has
  no attribute \<open>team_id\<close> or \<open>teams\<close>; a League or a Team cannot be sliced or
  iterated.
\<close>

definition lookup :: "obj list \<Rightarrow> nat \<Rightarrow> error + obj" where
  "lookup s a = (if a < length s then Inr (s ! a) else Inl DanglingReference)"

definition list_at :: "obj list \<Rightarrow> nat \<Rightarrow> error + val list" where
  "list_at s a =
     (case lookup s a of
        Inl e \<Rightarrow> Inl e
      | Inr ob \<Rightarrow> (case ob of ListO vs \<Rightarrow> Inr vs | LeagueO ta st \<Rightarrow> Inl TypeError | TeamO c \<Rightarrow> Inl TypeError))"

definition team_at :: "obj list \<Rightarrow> val \<Rightarrow> error + team_cell" where
  "team_at s v =
     (case v of
        RefV a \<Rightarrow>
          (case lookup s a of
             Inl e \<Rightarrow> Inl e
           | Inr ob \<Rightarrow>
               (case ob of TeamO c \<Rightarrow> Inr c | LeagueO ta st \<Rightarrow> Inl AttributeError
                | ListO vs \<Rightarrow> Inl AttributeError))
      | IntV i \<Rightarrow> Inl AttributeError
      | NumV x \<Rightarrow> Inl AttributeError
      | TupleV x y \<Rightarrow> Inl AttributeError)"

definition teams_attr :: "obj list \<Rightarrow> nat \<Rightarrow> error + nat" where
  "teams_attr s self =
     (case lookup s self of
        Inl e \<Rightarrow> Inl e
      | Inr ob \<Rightarrow>
          (case ob of LeagueO ta st \<Rightarrow> Inr ta | TeamO c \<Rightarrow> Inl AttributeError
           | ListO vs \<Rightarrow> Inl AttributeError))"

text \<open>A new object gets the next free address.\<close>

definition alloc :: "obj list \<Rightarrow> obj \<Rightarrow> nat \<times> obj list" where
  "alloc s ob = (length s, s @ [ob])"

text \<open>\<open>mov > 0\<close> and \<open>wins[opp] += 1\<close> on values.\<close>

definition positive :: "val \<Rightarrow> error + bool" where
  "positive m =
     (case m of NumV x \<Rightarrow> Inr (0 < x) | IntV i \<Rightarrow> Inr (0 < i)
      | RefV a \<Rightarrow> Inl TypeError | TupleV x y \<Rightarrow> Inl TypeError)"

definition incr_val :: "val list \<Rightarrow> int \<Rightarrow> error + val list" where
  "incr_val wins opp =
     (let n = int (length wins); j = (if opp < 0 then n + opp else opp)
      in if 0 \<le> j \<and> j < n then
           (case wins ! nat j of
              IntV k \<Rightarrow> Inr (wins[nat j := IntV (k + 1)])
            | NumV x \<Rightarrow> Inr (wins[nat j := NumV (x + 1)])
            | RefV a \<Rightarrow> Inl TypeError
            | TupleV x y \<Rightarrow> Inl TypeError)
         else Inl IndexError)"

text \<open>
  The inner loop: \<open>wins\<close> is the address of the list of counters, and an increment
  writes the store at that address.
\<close>

fun count_wins_st :: "obj list \<Rightarrow> nat \<Rightarrow> (val \<times> val) list \<Rightarrow> error option \<times> obj list" where
  "count_wins_st s w [] = (None, s)"
| "count_wins_st s w ((m, opponent) # rest) =
     (case team_at s opponent of
        Inl e \<Rightarrow> (Some e, s)
      | Inr c \<Rightarrow>
          (let opp = cell_id c - 1 in
           case positive m of
             Inl e \<Rightarrow> (Some e, s)
           | Inr pos \<Rightarrow>
               if pos then
                 (case list_at s w of
                    Inl e \<Rightarrow> (Some e, s)
                  | Inr wins \<Rightarrow>
                      (case incr_val wins opp of
                         Inl e \<Rightarrow> (Some e, s)
                       | Inr wins' \<Rightarrow> count_wins_st (s[w := ListO wins']) w rest))
               else count_wins_st s w rest))"

text \<open>
  The loop over \<open>teams_sorted\<close>: \<open>[0]*32\<close> is a new list, each of the two slices is a
  new list, the pairs of \<open>zip\<close> are read from the slices, and \<open>win_matrix.append(wins)\<close>
  writes the store at the address of \<open>win_matrix\<close>.
\<close>

fun win_rows_st :: "obj list \<Rightarrow> nat \<Rightarrow> nat list \<Rightarrow> int \<Rightarrow> error option \<times> obj list" where
  "win_rows_st s wm [] week = (None, s)"
| "win_rows_st s wm (a # as) week =
     (case alloc s (ListO (replicate 32 (IntV 0))) of
        (w, s1) \<Rightarrow>
          (case team_at s1 (RefV a) of
             Inl e \<Rightarrow> (Some e, s1)
           | Inr c \<Rightarrow>
               (case list_at s1 (cell_mov c) of
                  Inl e \<Rightarrow> (Some e, s1)
                | Inr ms \<Rightarrow>
                    (case alloc s1 (ListO (slice_to ms week)) of
                       (ma, s2) \<Rightarrow>
                         (case list_at s2 (cell_schedule c) of
                            Inl e \<Rightarrow> (Some e, s2)
                          | Inr ss \<Rightarrow>
                              (case alloc s2 (ListO (slice_to ss week)) of
                                 (sa, s3) \<Rightarrow>
                                   (case count_wins_st s3 w (zip (slice_to ms week) (slice_to ss week)) of
                                      (Some e, s4) \<Rightarrow> (Some e, s4)
                                    | (None, s4) \<Rightarrow>
                                        (case list_at s4 wm of
                                           Inl e \<Rightarrow> (Some e, s4)
                                         | Inr rows \<Rightarrow>
                                             win_rows_st (s4[wm := ListO (rows @ [RefV w])]) wm as week))))))))"

text \<open>
  \<open>sorted(self.teams, key=lambda x: x.team_id)\<close>: the key of every element is read,
  then the elements are put in the order of their keys into a new list.
\<close>

fun addr_of :: "val \<Rightarrow> nat" where
  "addr_of (RefV a) = a"
| "addr_of v = 0"

fun keyed :: "obj list \<Rightarrow> val list \<Rightarrow> error + (int \<times> nat) list" where
  "keyed s [] = Inr []"
| "keyed s (v # vs) =
     (case team_at s v of
        Inl e \<Rightarrow> Inl e
      | Inr c \<Rightarrow>
          (case keyed s vs of
             Inl e \<Rightarrow> Inl e
           | Inr ks \<Rightarrow> Inr ((cell_id c, addr_of v) # ks)))"

text \<open>
  Modelled from the spec: the way the two helpers of \<open>utils\<close>, which is not among the
  sources, read their arguments. The win matrix is a list of lists of integers, the
  dominance scores a list of integers.
\<close>

fun ints_of :: "val list \<Rightarrow> error + int list" where
  "ints_of [] = Inr []"
| "ints_of (IntV i # vs) = (case ints_of vs of Inl e \<Rightarrow> Inl e | Inr is \<Rightarrow> Inr (i # is))"
| "ints_of (v # vs) = Inl TypeError"

fun matrix_of :: "obj list \<Rightarrow> val list \<Rightarrow> error + int list list" where
  "matrix_of s [] = Inr []"
| "matrix_of s (RefV r # vs) =
     (case list_at s r of
        Inl e \<Rightarrow> Inl e
      | Inr row \<Rightarrow>
          (case ints_of row of
             Inl e \<Rightarrow> Inl e
           | Inr x \<Rightarrow> (case matrix_of s vs of Inl e \<Rightarrow> Inl e | Inr xs \<Rightarrow> Inr (x # xs))))"
| "matrix_of s (v # vs) = Inl TypeError"

text \<open>
  Modelled from the spec: what \<open>power_points\<close> reads of an object, the id and the
  points of a Team.
\<close>

definition view :: "obj \<Rightarrow> team" where
  "view ob =
     (case ob of
        TeamO c \<Rightarrow>
          \<lparr>team_id = cell_id c, owner = [], points_for = cell_points_for c,
           schedule = [], scores = [], mov = []\<rparr>
      | LeagueO ta st \<Rightarrow>
          \<lparr>team_id = 0, owner = [], points_for = 0, schedule = [], scores = [], mov = []\<rparr>
      | ListO vs \<Rightarrow>
          \<lparr>team_id = 0, owner = [], points_for = 0, schedule = [], scores = [], mov = []\<rparr>)"

text \<open>Modelled from the spec: the ranking as a list of tuples (team, score).\<close>

definition ranking_vals :: "(nat \<times> real) list \<Rightarrow> val list" where
  "ranking_vals rk = map (\<lambda>p. TupleV (RefV (fst p)) (NumV (snd p))) rk"

text \<open>
  Modelled from the spec: \<open>two_step_dominance\<close> on the store. Section 5 of the
  specification has the ranking computed as a pure function of the data that produces a
  fresh result: the helper reads the matrix and returns the scores in a new list.
\<close>

definition two_step_dominance_st :: "obj list \<Rightarrow> nat \<Rightarrow> (error + nat) \<times> obj list" where
  "two_step_dominance_st s wm =
     (case list_at s wm of
        Inl e \<Rightarrow> (Inl e, s)
      | Inr rows \<Rightarrow>
          (case matrix_of s rows of
             Inl e \<Rightarrow> (Inl e, s)
           | Inr X \<Rightarrow>
               (case alloc s (ListO (map IntV (two_step_dominance X))) of
                  (da, s1) \<Rightarrow> (Inr da, s1))))"

text \<open>
  Modelled from the spec: \<open>power_points\<close> on the store, in the same way: it reads the
  dominance scores and the teams and returns the ranking in a new list.
\<close>

definition power_points_st ::
  "(int \<Rightarrow> real \<Rightarrow> real) \<Rightarrow> obj list \<Rightarrow> nat \<Rightarrow> nat \<Rightarrow> int \<Rightarrow> (error + nat) \<times> obj list" where
  "power_points_st blend s da ts week =
     (case list_at s da of
        Inl e \<Rightarrow> (Inl e, s)
      | Inr dvs \<Rightarrow>
          (case ints_of dvs of
             Inl e \<Rightarrow> (Inl e, s)
           | Inr dominance \<Rightarrow>
               (case list_at s ts of
                  Inl e \<Rightarrow> (Inl e, s)
                | Inr tvs \<Rightarrow>
                    (case keyed s tvs of
                       Inl e \<Rightarrow> (Inl e, s)
                     | Inr ks \<Rightarrow>
                         (case alloc s (ListO (ranking_vals
                                  (power_points blend (map view s) dominance (map snd ks) week))) of
                            (ra, s1) \<Rightarrow> (Inr ra, s1))))))"

text \<open>
  \<open>League.power_rankings\<close>: \<open>win_matrix = []\<close>, \<open>teams_sorted\<close>, the loop, the two
  helpers. The result is the address of the ranking, or the error raised, and the store
  after the call.
\<close>

definition power_rankings_st ::
  "(int \<Rightarrow> real \<Rightarrow> real) \<Rightarrow> obj list \<Rightarrow> nat \<Rightarrow> int \<Rightarrow> (error + nat) \<times> obj list" where
  "power_rankings_st blend s self week =
     (case alloc s (ListO []) of
        (wm, s1) \<Rightarrow>
          (case teams_attr s1 self of
             Inl e \<Rightarrow> (Inl e, s1)
           | Inr ta \<Rightarrow>
               (case list_at s1 ta of
                  Inl e \<Rightarrow> (Inl e, s1)
                | Inr tvs \<Rightarrow>
                    (case keyed s1 tvs of
                       Inl e \<Rightarrow> (Inl e, s1)
                     | Inr ks \<Rightarrow>
                         (case alloc s1 (ListO (map RefV (map snd (sort_key fst ks)))) of
                            (ts, s2) \<Rightarrow>
                              (case win_rows_st s2 wm (map snd (sort_key fst ks)) week of
                                 (Some e, s3) \<Rightarrow> (Inl e, s3)
                               | (None, s3) \<Rightarrow>
                                   (case two_step_dominance_st s3 wm of
                                      (Inl e, s4) \<Rightarrow> (Inl e, s4)
                                    | (Inr da, s4) \<Rightarrow> power_points_st blend s4 da ts week)))))))"

text \<open>
  The objects of a League of the first model, laid out in a store: for the Team at
  position \<open>i\<close> its \<open>schedule\<close>, \<open>scores\<close> and \<open>mov\<close> lists at the addresses
  \<open>4i\<close>, \<open>4i + 1\<close>, \<open>4i + 2\<close> and the Team itself at \<open>4i + 3\<close>; then the list
  \<open>self.teams\<close>, and the League last. A reference to the Team at position \<open>b\<close> is the
  address \<open>4b + 3\<close>.
\<close>

definition opp_val :: "opponent \<Rightarrow> val" where
  "opp_val opp = (case opp of TeamObj b \<Rightarrow> RefV (4 * b + 3) | OpponentId i \<Rightarrow> IntV i)"

definition team_objs :: "team list \<Rightarrow> nat \<Rightarrow> obj list" where
  "team_objs h i =
     [ListO (map opp_val (schedule (h ! i))),
      ListO (map NumV (scores (h ! i))),
      ListO (map NumV (mov (h ! i))),
      TeamO \<lparr>cell_id = team_id (h ! i), cell_points_for = points_for (h ! i),
             cell_schedule = 4 * i, cell_scores = 4 * i + 1, cell_mov = 4 * i + 2\<rparr>]"

definition store_of :: "league \<Rightarrow> obj list" where
  "store_of L =
     concat (map (team_objs (objs L)) [0..<length (objs L)]) @
     [ListO (map (\<lambda>a. RefV (4 * a + 3)) (teams L)),
      LeagueO (4 * length (objs L)) (status L)]"

definition self_of :: "league \<Rightarrow> nat" where
  "self_of L = 4 * length (objs L) + 1"

section \<open>Notions used in the properties\<close>

text \<open>The position a Python list of length \<open>n\<close> reads for the index \<open>i\<close>.\<close>

definition py_index :: "nat \<Rightarrow> int \<Rightarrow> int" where
  "py_index n i = (if i < 0 then int n + i else i)"

text \<open>
  A pair (margin, opponent) of a week increments the slot \<open>s\<close> of a win vector of
  length \<open>n\<close>: the margin is positive and \<open>opponent.team_id - 1\<close> indexes that slot.
\<close>

definition hits_slot :: "team list \<Rightarrow> nat \<Rightarrow> nat \<Rightarrow> real \<times> opponent \<Rightarrow> bool" where
  "hits_slot h n s p =
     (0 < fst p \<and>
      (case snd p of TeamObj b \<Rightarrow> py_index n (team_id (h ! b) - 1) = int s | OpponentId i \<Rightarrow> False))"

text \<open>A week won against the team whose id is \<open>s + 1\<close>.\<close>

definition beats_slot :: "team list \<Rightarrow> nat \<Rightarrow> real \<times> opponent \<Rightarrow> bool" where
  "beats_slot h s p =
     (0 < fst p \<and>
      (case snd p of TeamObj b \<Rightarrow> team_id (h ! b) - 1 = int s | OpponentId i \<Rightarrow> False))"

text \<open>
  The pairs a win vector of 32 slots can take: every opponent is a Team instance, and
  the opponent of a week with a positive margin has an id from 1 to 32.
\<close>

definition within_capacity :: "team list \<Rightarrow> (real \<times> opponent) list \<Rightarrow> bool" where
  "within_capacity h ps =
     (\<forall>p \<in> set ps.
        case snd p of
          TeamObj b \<Rightarrow> b < length h \<and> (0 < fst p \<longrightarrow> 1 \<le> team_id (h ! b) \<and> team_id (h ! b) \<le> 32)
        | OpponentId i \<Rightarrow> False)"

text \<open>
  A team with its margin list and its opponent list, as truncated to the week, both cut
  to the length of the shorter one.
\<close>

definition shorter_length :: "team \<Rightarrow> int \<Rightarrow> nat" where
  "shorter_length t week =
     min (length (slice_to (mov t) week)) (length (slice_to (schedule t) week))"

definition cut_to_shorter :: "team \<Rightarrow> int \<Rightarrow> team" where
  "cut_to_shorter t week =
     t\<lparr>mov := take (shorter_length t week) (slice_to (mov t) week),
       schedule := take (shorter_length t week) (slice_to (schedule t) week)\<rparr>"

text \<open>
  Two matrices of the same shape, the first with entries from 0 up to the entries of the
  second.
\<close>

definition matrix_le :: "int list list \<Rightarrow> int list list \<Rightarrow> bool" where
  "matrix_le A B =
     (length A = length B \<and>
      (\<forall>i<length A. length (A ! i) = length (B ! i) \<and>
         (\<forall>j<length (A ! i). 0 \<le> A ! i ! j \<and> A ! i ! j \<le> B ! i ! j)))"

text \<open>
  What a call of \<open>power_rankings\<close> on the store hands back: the elements of the
  ranking, or the error.
\<close>

definition outcome :: "obj list \<Rightarrow> error + nat \<Rightarrow> error + val list" where
  "outcome s r = (case r of Inl e \<Rightarrow> Inl e | Inr a \<Rightarrow> list_at s a)"

text \<open>
  A store without dangling references: every reference held by an object of the store
  is the address of an object of the store.
\<close>

fun val_ok :: "nat \<Rightarrow> val \<Rightarrow> bool" where
  "val_ok n (RefV a) = (a < n)"
| "val_ok n (TupleV x y) = (val_ok n x \<and> val_ok n y)"
| "val_ok n v = True"

definition obj_ok :: "nat \<Rightarrow> obj \<Rightarrow> bool" where
  "obj_ok n ob =
     (case ob of
        LeagueO ta st \<Rightarrow> ta < n
      | TeamO c \<Rightarrow> cell_schedule c < n \<and> cell_scores c < n \<and> cell_mov c < n
      | ListO vs \<Rightarrow> list_all (val_ok n) vs)"

definition closed :: "obj list \<Rightarrow> bool" where
  "closed s = list_all (obj_ok (length s)) s"

text \<open>The store \<open>s\<close> still holds every object of \<open>s0\<close>, unchanged, at its address.\<close>

definition keeps :: "obj list \<Rightarrow> obj list \<Rightarrow> bool" where
  "keeps s0 s = (length s0 \<le> length s \<and> take (length s0) s = s0)"

text \<open>
  The ranking as a function of the store that reads only: the counters of a team, the
  rows of the matrix, the teams in the order of their ids, the ranking.
\<close>

fun wins_pure :: "obj list \<Rightarrow> (val \<times> val) list \<Rightarrow> int list \<Rightarrow> error + int list" where
  "wins_pure s [] ws = Inr ws"
| "wins_pure s ((m, opponent) # rest) ws =
     (case team_at s opponent of
        Inl e \<Rightarrow> Inl e
      | Inr c \<Rightarrow>
          (case positive m of
             Inl e \<Rightarrow> Inl e
           | Inr pos \<Rightarrow>
               if pos then
                 (case incr_at ws (cell_id c - 1) of
                    Inl e \<Rightarrow> Inl e
                  | Inr ws' \<Rightarrow> wins_pure s rest ws')
               else wins_pure s rest ws))"

definition pairs_pure :: "obj list \<Rightarrow> nat \<Rightarrow> int \<Rightarrow> error + (val \<times> val) list" where
  "pairs_pure s a week =
     (case team_at s (RefV a) of
        Inl e \<Rightarrow> Inl e
      | Inr c \<Rightarrow>
          (case list_at s (cell_mov c) of
             Inl e \<Rightarrow> Inl e
           | Inr ms \<Rightarrow>
               (case list_at s (cell_schedule c) of
                  Inl e \<Rightarrow> Inl e
                | Inr ss \<Rightarrow> Inr (zip (slice_to ms week) (slice_to ss week)))))"

fun rows_pure :: "obj list \<Rightarrow> nat list \<Rightarrow> int \<Rightarrow> error + int list list" where
  "rows_pure s [] week = Inr []"
| "rows_pure s (a # as) week =
     (case pairs_pure s a week of
        Inl e \<Rightarrow> Inl e
      | Inr ps \<Rightarrow>
          (case wins_pure s ps (replicate 32 0) of
             Inl e \<Rightarrow> Inl e
           | Inr ws \<Rightarrow>
               (case rows_pure s as week of
                  Inl e \<Rightarrow> Inl e
                | Inr rows \<Rightarrow> Inr (ws # rows))))"

definition sorted_pure :: "obj list \<Rightarrow> nat \<Rightarrow> error + nat list" where
  "sorted_pure s self =
     (case teams_attr s self of
        Inl e \<Rightarrow> Inl e
      | Inr ta \<Rightarrow>
          (case list_at s ta of
             Inl e \<Rightarrow> Inl e
           | Inr tvs \<Rightarrow>
               (case keyed s tvs of
                  Inl e \<Rightarrow> Inl e
                | Inr ks \<Rightarrow> Inr (map snd (sort_key fst ks)))))"

definition ranking_pure ::
  "(int \<Rightarrow> real \<Rightarrow> real) \<Rightarrow> obj list \<Rightarrow> nat \<Rightarrow> int \<Rightarrow> error + val list" where
  "ranking_pure blend s self week =
     (case sorted_pure s self of
        Inl e \<Rightarrow> Inl e
      | Inr ts \<Rightarrow>
          (case rows_pure s ts week of
             Inl e \<Rightarrow> Inl e
           | Inr wm \<Rightarrow>
               Inr (ranking_vals
                      (power_points blend (map view s) (two_step_dominance wm) ts week))))"

text \<open>
  The rows appended to the win matrix so far: each is the address of a list, other than
  the matrix, that holds the counters of one team.
\<close>

definition rows_inv :: "obj list \<Rightarrow> nat \<Rightarrow> nat list \<Rightarrow> int list list \<Rightarrow> bool" where
  "rows_inv s wm rs xs =
     list_all2 (\<lambda>r x. r < length s \<and> r \<noteq> wm \<and> s ! r = ListO (map IntV x)) rs xs"

section \<open>Example inputs\<close>

text \<open>
  A scoreboard entry whose first team is the away side and whose second team is flagged
  home.
\<close>

definition away_first :: matchup_data where
  "away_first =
     \<lparr>md_teams = [\<lparr>mt_teamId = 3, mt_score = 80, mt_home = False\<rparr>,
                  \<lparr>mt_teamId = 5, mt_score = 95, mt_home = True\<rparr>],
      md_bye = False\<rparr>"

text \<open>
  A league-settings response with a given status, whose body is an object with an error
  message and an empty dictionary of teams; and a response with the status 500 whose
  body is not JSON, such as an HTML error page.
\<close>

definition no_teams_response :: "int \<Rightarrow> settings_response" where
  "no_teams_response s =
     \<lparr>status_code = s,
      body = JsonObject \<lparr>error_entries = Some [Some ''denied''], settings_teams = Some []\<rparr>\<rparr>"

definition html_error_response :: settings_response where
  "html_error_response = \<lparr>status_code = 500, body = NotJson\<rparr>"

text \<open>A weighting of dominance and points per game, for the examples.\<close>

definition dominance_first :: "int \<Rightarrow> real \<Rightarrow> real" where
  "dominance_first d ppg = of_int d + ppg / 1000"

text \<open>
  A League in which the first team has one margin but two opponents on record.
\<close>

definition short_mov_league :: league where
  "short_mov_league =
     \<lparr>league_id = 1, year = 2017,
      objs = [\<lparr>team_id = 1, owner = ''A'', points_for = 30,
               schedule = [TeamObj 1, TeamObj 1], scores = [17, 13], mov = [7]\<rparr>,
              \<lparr>team_id = 2, owner = ''B'', points_for = 20,
               schedule = [TeamObj 0, TeamObj 0], scores = [10, 10], mov = [-7, -3]\<rparr>],
      teams = [0, 1], status = 200\<rparr>"

text \<open>Schedule items: a game between a home and an away team, and a bye week.\<close>

definition game :: "int \<Rightarrow> real \<Rightarrow> int \<Rightarrow> real \<Rightarrow> schedule_item" where
  "game home hs away as =
     \<lparr>isBye = False, awayTeamId = away, homeTeamId = home, awayTeamScore = as, homeTeamScore = hs\<rparr>"

definition bye :: "int \<Rightarrow> real \<Rightarrow> schedule_item" where
  "bye home hs =
     \<lparr>isBye = True, awayTeamId = 0, homeTeamId = home, awayTeamScore = 0, homeTeamScore = hs\<rparr>"

text \<open>
  A league of three teams over three weeks, one team on a bye each week, and the League
  that \<open>League_init\<close> builds from it.
\<close>

definition sample_response :: settings_response where
  "sample_response =
     \<lparr>status_code = 200, body = JsonObject \<lparr>error_entries = None,
      settings_teams = Some
        [\<lparr>teamId = 2, ownerName = ''Bo Lee'', pointsFor = 37,
          scheduleItems = [game 1 20 2 10, bye 2 12, game 2 15 3 12]\<rparr>,
         \<lparr>teamId = 1, ownerName = ''Al Ray'', pointsFor = 53,
          scheduleItems = [game 1 20 2 10, game 3 9 1 22, bye 1 11]\<rparr>,
         \<lparr>teamId = 3, ownerName = ''Cy Orr'', pointsFor = 35,
          scheduleItems = [bye 3 14, game 3 9 1 22, game 2 15 3 12]\<rparr>]\<rparr>\<rparr>"

definition sample_league :: league where
  "sample_league =
     \<lparr>league_id = 7, year = 2017,
      objs = [\<lparr>team_id = 2, owner = ''Bo Lee'', points_for = 37,
               schedule = [TeamObj 1, TeamObj 0, TeamObj 2], scores = [10, 12, 15],
               mov = [- 10, 0, 3]\<rparr>,
              \<lparr>team_id = 1, owner = ''Al Ray'', points_for = 53,
               schedule = [TeamObj 0, TeamObj 2, TeamObj 1], scores = [20, 22, 11],
               mov = [10, 13, 0]\<rparr>,
              \<lparr>team_id = 3, owner = ''Cy Orr'', points_for = 35,
               schedule = [TeamObj 2, TeamObj 1, TeamObj 0], scores = [14, 9, 12],
               mov = [0, - 13, - 3]\<rparr>],
      teams = [1, 0, 2], status = 200\<rparr>"

text \<open>
  A league of two teams with the ids 1 and 33, one week played, and its League.
\<close>

definition wide_response :: settings_response where
  "wide_response =
     \<lparr>status_code = 200, body = JsonObject \<lparr>error_entries = None,
      settings_teams = Some
        [\<lparr>teamId = 1, ownerName = ''Al Ray'', pointsFor = 20, scheduleItems = [game 1 20 33 10]\<rparr>,
         \<lparr>teamId = 33, ownerName = ''Di Fox'', pointsFor = 10, scheduleItems = [game 1 20 33 10]\<rparr>]\<rparr>\<rparr>"

definition wide_league :: league where
  "wide_league =
     \<lparr>league_id = 7, year = 2017,
      objs = [\<lparr>team_id = 1, owner = ''Al Ray'', points_for = 20,
               schedule = [TeamObj 1], scores = [20], mov = [10]\<rparr>,
              \<lparr>team_id = 33, owner = ''Di Fox'', points_for = 10,
               schedule = [TeamObj 0], scores = [10], mov = [- 10]\<rparr>],
      teams = [0, 1], status = 200\<rparr>"

text \<open>The win matrices of that League for the weeks 1, 2 and 3.\<close>

definition sample_matrix_week1 :: "int list list" where
  "sample_matrix_week1 = [(replicate 32 0)[1 := 1], replicate 32 0, replicate 32 0]"

definition sample_matrix_week2 :: "int list list" where
  "sample_matrix_week2 = [(replicate 32 0)[1 := 1, 2 := 1], replicate 32 0, replicate 32 0]"

definition sample_matrix :: "int list list" where
  "sample_matrix = [(replicate 32 0)[1 := 1, 2 := 1], (replicate 32 0)[2 := 1], replicate 32 0]"

text \<open>
  A league of two teams after one week, team 1 having beaten team 2 by 20 to 10, and the
  League that \<open>League_init\<close> builds from it.
\<close>

definition pair_response :: settings_response where
  "pair_response =
     \<lparr>status_code = 200, body = JsonObject \<lparr>error_entries = None,
      settings_teams = Some
        [\<lparr>teamId = 1, ownerName = ''Al Ray'', pointsFor = 20, scheduleItems = [game 1 20 2 10]\<rparr>,
         \<lparr>teamId = 2, ownerName = ''Bo Lee'', pointsFor = 10, scheduleItems = [game 1 20 2 10]\<rparr>]\<rparr>\<rparr>"

definition pair_league :: league where
  "pair_league =
     \<lparr>league_id = 7, year = 2017,
      objs = [\<lparr>team_id = 1, owner = ''Al Ray'', points_for = 20,
               schedule = [TeamObj 1], scores = [20], mov = [10]\<rparr>,
              \<lparr>team_id = 2, owner = ''Bo Lee'', points_for = 10,
               schedule = [TeamObj 0], scores = [10], mov = [- 10]\<rparr>],
      teams = [0, 1], status = 200\<rparr>"

text \<open>
  The store of that League: the three lists and the Team of each team, the list of the
  teams, the League at address 9. And two calls of \<open>power_rankings(1)\<close>, the second on
  the store that the first leaves behind.
\<close>

definition small_store :: "obj list" where
  "small_store =
     [ListO [RefV 7], ListO [NumV 20], ListO [NumV 10],
      TeamO \<lparr>cell_id = 1, cell_points_for = 20, cell_schedule = 0, cell_scores = 1, cell_mov = 2\<rparr>,
      ListO [RefV 3], ListO [NumV 10], ListO [NumV (- 10)],
      TeamO \<lparr>cell_id = 2, cell_points_for = 10, cell_schedule = 4, cell_scores = 5, cell_mov = 6\<rparr>,
      ListO [RefV 3, RefV 7],
      LeagueO 8 200]"

definition small_first_run :: "(error + nat) \<times> obj list" where
  "small_first_run = power_rankings_st dominance_first small_store 9 1"

definition small_second_run :: "(error + nat) \<times> obj list" where
  "small_second_run = power_rankings_st dominance_first (snd small_first_run) 9 1"

section \<open>Properties\<close>

subsection \<open>Counting wins\<close>

lemma incr_at_Inr:
  assumes "incr_at ws i = Inr ws'"
  shows "length ws' = length ws"
    and "s < length ws \<Longrightarrow> ws' ! s = ws ! s + (if py_index (length ws) i = int s then 1 else 0)"
  using assms by (auto simp: incr_at_def py_index_def Let_def nth_list_update split: if_splits)

lemma count_wins_length: "count_wins h ps ws = Inr ws' \<Longrightarrow> length ws' = length ws"
proof (induction h ps ws rule: count_wins.induct)
  case (1 h wins)
  then show ?case by simp
next
  case (2 h m opponent rest wins)
  then show ?case
    by (auto simp: deref_def Let_def incr_at_Inr(1) split: opponent.splits sum.splits if_splits)
qed

lemma count_wins_slots:
  "count_wins h ps ws = Inr ws' \<Longrightarrow> s < length ws \<Longrightarrow>
   ws' ! s = ws ! s + int (length (filter (hits_slot h (length ws) s) ps))"
proof (induction h ps ws rule: count_wins.induct)
  case (1 h wins)
  then show ?case by simp
next
  case (2 h m opponent rest wins)
  then show ?case
    by (auto simp: deref_def Let_def incr_at_Inr hits_slot_def split: opponent.splits sum.splits if_splits)
qed

lemma count_wins_total:
  "within_capacity h ps \<Longrightarrow> length ws = 32 \<Longrightarrow> \<exists>ws'. count_wins h ps ws = Inr ws'"
proof (induction h ps ws rule: count_wins.induct)
  case (1 h wins)
  then show ?case by simp
next
  case (2 h m opponent rest wins)
  then show ?case
    by (auto simp: deref_def Let_def within_capacity_def incr_at_def split: opponent.splits sum.splits if_splits)
qed

lemma count_wins_append:
  "count_wins h (ps @ qs) ws =
     (case count_wins h ps ws of Inl e \<Rightarrow> Inl e | Inr ws' \<Rightarrow> count_wins h qs ws')"
  by (induction h ps ws rule: count_wins.induct)
     (auto simp: Let_def split: opponent.splits sum.splits)

lemma week_pairs_nonneg: "0 \<le> W \<Longrightarrow> week_pairs t W = take (nat W) (zip (mov t) (schedule t))"
  by (simp add: week_pairs_def slice_to_def take_zip)

subsection \<open>What the construction of a League establishes\<close>

lemma fetch_schedule_eq:
  "fetch_schedule t ms =
     t\<lparr>scores := scores t @ map (\<lambda>m. fst (schedule_entry (team_id t) m)) ms,
       schedule := schedule t @ map (\<lambda>m. OpponentId (snd (schedule_entry (team_id t) m))) ms\<rparr>"
  by (induction ms arbitrary: t) (auto split: prod.splits)

lemma mov_Team_init: "mov (Team_init d) = []"
  by (simp add: Team_init_def fetch_schedule_eq)

lemma length_link_teams: "length (link_teams ts as h) = length h"
  by (induction as arbitrary: h) auto

lemma mov_link_teams:
  "\<forall>b<length h. mov (h ! b) = [] \<Longrightarrow> b < length h \<Longrightarrow> mov (link_teams ts as h ! b) = []"
proof (induction as arbitrary: h)
  case Nil
  then show ?case by simp
next
  case (Cons a as)
  let ?h = "if a < length h
            then h[a := (h ! a)\<lparr>schedule := link_schedule h ts (schedule (h ! a))\<rparr>] else h"
  have len: "length ?h = length h" by simp
  have "\<forall>c<length ?h. mov (?h ! c) = []"
    using Cons.prems(1) by (simp add: nth_list_update)
  from Cons.IH [OF this] Cons.prems(2) len have "mov (link_teams ts as ?h ! b) = []"
    by metis
  then show ?case by simp
qed

lemma margins_cong:
  "map scores h = map scores h' \<Longrightarrow> margins h own k sched = margins h' own k sched"
proof (induction sched arbitrary: k)
  case Nil
  then show ?case by simp
next
  case (Cons opp rest)
  from Cons.prems have len: "length h = length h'"
    by (metis length_map)
  have sc: "b < length h \<Longrightarrow> scores (h ! b) = scores (h' ! b)" for b
    using Cons.prems len by (metis nth_map)
  show ?case
    using Cons.IH [OF Cons.prems] len sc
    by (auto simp: deref_def split: sum.splits opponent.splits)
qed

lemma margins_Inr:
  "margins h own k sched = Inr ms \<Longrightarrow>
   length ms = length sched \<and>
   (\<forall>i<length sched. \<exists>b<length h. sched ! i = TeamObj b \<and>
        ms ! i = own ! (k + i) - scores (h ! b) ! (k + i))"
proof (induction sched arbitrary: k ms)
  case Nil
  then show ?case by simp
next
  case (Cons opp rest)
  from Cons.prems obtain b ms' where
    opp: "opp = TeamObj b" and b: "b < length h" and
    rest: "margins h own (Suc k) rest = Inr ms'" and
    ms: "ms = (own ! k - scores (h ! b) ! k) # ms'"
    by (auto simp: deref_def score_at_def split: sum.splits opponent.splits if_splits)
  from Cons.IH [OF rest] have
    len: "length ms' = length rest" and
    ih: "\<forall>i<length rest. \<exists>b<length h. rest ! i = TeamObj b \<and>
           ms' ! i = own ! (Suc k + i) - scores (h ! b) ! (Suc k + i)"
    by auto
  show ?case
  proof (intro conjI allI impI)
    show "length ms = length (opp # rest)" using ms len by simp
  next
    fix i assume "i < length (opp # rest)"
    then show "\<exists>b<length h. (opp # rest) ! i = TeamObj b \<and>
        ms ! i = own ! (k + i) - scores (h ! b) ! (k + i)"
      using opp b ms ih by (cases i) auto
  qed
qed

lemma calc_mov_Inr:
  "calc_mov as h = Inr h' \<Longrightarrow> distinct as \<Longrightarrow>
   length h' = length h \<and> map scores h' = map scores h \<and> map schedule h' = map schedule h \<and>
   map team_id h' = map team_id h \<and>
   (\<forall>a<length h. a \<notin> set as \<longrightarrow> h' ! a = h ! a) \<and>
   (\<forall>a\<in>set as. a < length h \<and>
      (\<exists>ms. margins h (scores (h ! a)) 0 (schedule (h ! a)) = Inr ms \<and>
            mov (h' ! a) = mov (h ! a) @ ms))"
proof (induction as arbitrary: h)
  case Nil
  then show ?case by simp
next
  case (Cons a as)
  from Cons.prems(1) obtain ms where
    a: "a < length h" and
    ms: "margins h (scores (h ! a)) 0 (schedule (h ! a)) = Inr ms" and
    rest: "calc_mov as (h[a := (h ! a)\<lparr>mov := mov (h ! a) @ ms\<rparr>]) = Inr h'"
    by (auto simp: deref_def split: sum.splits if_splits)
  let ?h1 = "h[a := (h ! a)\<lparr>mov := mov (h ! a) @ ms\<rparr>]"
  from Cons.prems(2) have dist: "distinct as" and notin: "a \<notin> set as" by auto
  have sc1: "map scores ?h1 = map scores h" and sd1: "map schedule ?h1 = map schedule h"
    and id1: "map team_id ?h1 = map team_id h"
    using a by (simp_all add: map_update list_update_same_conv)
  note ih = Cons.IH [OF rest dist]
  have other: "b < length h \<Longrightarrow> b \<noteq> a \<Longrightarrow> ?h1 ! b = h ! b" for b by simp
  show ?case
  proof (intro conjI allI impI ballI)
    show "length h' = length h" using ih by simp
    show "map scores h' = map scores h" using ih sc1 by simp
    show "map schedule h' = map schedule h" using ih sd1 by simp
    show "map team_id h' = map team_id h" using ih id1 by simp
  next
    fix b assume "b < length h" "b \<notin> set (a # as)"
    then show "h' ! b = h ! b" using ih by simp
  next
    fix b assume b: "b \<in> set (a # as)"
    show "b < length h" using b a ih by auto
    show "\<exists>ms. margins h (scores (h ! b)) 0 (schedule (h ! b)) = Inr ms \<and>
            mov (h' ! b) = mov (h ! b) @ ms"
    proof (cases "b = a")
      case True
      have "h' ! a = ?h1 ! a" using ih notin a by simp
      then have "mov (h' ! a) = mov (h ! a) @ ms" using a by simp
      with ms True show ?thesis by blast
    next
      case False
      with b have bin: "b \<in> set as" by simp
      with ih obtain ms' where bl: "b < length ?h1" and
        m': "margins ?h1 (scores (?h1 ! b)) 0 (schedule (?h1 ! b)) = Inr ms'" and
        mv: "mov (h' ! b) = mov (?h1 ! b) @ ms'"
        by blast
      from bl False have eq: "?h1 ! b = h ! b" by simp
      from m' have "margins h (scores (h ! b)) 0 (schedule (h ! b)) = Inr ms'"
        using margins_cong [OF sc1] eq by simp
      with mv eq show ?thesis by auto
    qed
  qed
qed

lemma League_init_Inr:
  assumes "League_init lid yr r = Inr L"
  shows "set (teams L) = {..<length (objs L)}"
    and "sorted (map (\<lambda>a. team_id (objs L ! a)) (teams L))"
    and "a < length (objs L) \<Longrightarrow> length (mov (objs L ! a)) = length (schedule (objs L ! a))"
    and "a < length (objs L) \<Longrightarrow> k < length (schedule (objs L ! a)) \<Longrightarrow>
         \<exists>b<length (objs L). schedule (objs L ! a) ! k = TeamObj b \<and>
           mov (objs L ! a) ! k = scores (objs L ! a) ! k - scores (objs L ! b) ! k"
proof -
  from assms obtain ds L1 where
    ft: "fetch_teams L1 ds = Inr L" and L1: "objs L1 = []" "teams L1 = []"
    by (auto simp: League_init_def fetch_league_def Let_def split: if_splits sum.splits)
  define h0 where "h0 = map Team_init ds"
  define ts where "ts = [0..<length h0]"
  define h1 where "h1 = link_teams ts ts h0"
  from ft L1 obtain h2 where
    cm: "calc_mov ts h1 = Inr h2" and
    L: "objs L = h2" "teams L = sort_by_id h2 ts"
    by (auto simp: fetch_teams_def Let_def h0_def ts_def h1_def split: sum.splits)
  have dist: "distinct ts" by (simp add: ts_def)
  note cmI = calc_mov_Inr [OF cm dist]
  have len1: "length h1 = length h0" by (simp add: h1_def length_link_teams)
  have len2: "length h2 = length h0" using cmI len1 by simp
  have mov0: "\<forall>b<length h0. mov (h0 ! b) = []"
    by (simp add: h0_def mov_Team_init)
  have mov1: "b < length h0 \<Longrightarrow> mov (h1 ! b) = []" for b
    unfolding h1_def by (rule mov_link_teams [OF mov0])
  show "set (teams L) = {..<length (objs L)}"
    using L len2 by (auto simp: sort_by_id_def ts_def)
  show "sorted (map (\<lambda>a. team_id (objs L ! a)) (teams L))"
    using L by (simp add: sort_by_id_def)
  have row: "\<exists>ms. margins h1 (scores (h1 ! a)) 0 (schedule (h1 ! a)) = Inr ms \<and> mov (h2 ! a) = ms"
    if "a < length h0" for a
  proof -
    from that have "a \<in> set ts" by (simp add: ts_def)
    with cmI obtain ms where "margins h1 (scores (h1 ! a)) 0 (schedule (h1 ! a)) = Inr ms"
      and "mov (h2 ! a) = mov (h1 ! a) @ ms" by blast
    with mov1 [OF that] show ?thesis by simp
  qed
  have sched: "schedule (h2 ! a) = schedule (h1 ! a)" if "a < length h0" for a
    using cmI that len1 len2 by (metis nth_map)
  have score: "scores (h2 ! a) = scores (h1 ! a)" if "a < length h0" for a
    using cmI that len1 len2 by (metis nth_map)
  show "length (mov (objs L ! a)) = length (schedule (objs L ! a))" if "a < length (objs L)"
  proof -
    from that have a: "a < length h0" using L len2 by simp
    from row [OF a] obtain ms where
      "margins h1 (scores (h1 ! a)) 0 (schedule (h1 ! a)) = Inr ms" "mov (h2 ! a) = ms" by blast
    with margins_Inr [of h1 "scores (h1 ! a)" 0 "schedule (h1 ! a)" ms] sched [OF a] L
    show ?thesis by simp
  qed
  show "\<exists>b<length (objs L). schedule (objs L ! a) ! k = TeamObj b \<and>
           mov (objs L ! a) ! k = scores (objs L ! a) ! k - scores (objs L ! b) ! k"
    if "a < length (objs L)" and "k < length (schedule (objs L ! a))"
  proof -
    from that have a: "a < length h0" using L len2 by simp
    from row [OF a] obtain ms where
      m: "margins h1 (scores (h1 ! a)) 0 (schedule (h1 ! a)) = Inr ms" and mv: "mov (h2 ! a) = ms"
      by blast
    from that have k: "k < length (schedule (h1 ! a))" using sched [OF a] L by simp
    from margins_Inr [OF m] k obtain b where
      b: "b < length h1" and sb: "schedule (h1 ! a) ! k = TeamObj b" and
      mk: "ms ! k = scores (h1 ! a) ! k - scores (h1 ! b) ! k"
      by auto
    from b have b0: "b < length h0" using len1 by simp
    show ?thesis
      using b0 sb mk mv sched [OF a] score [OF a] score [OF b0] L len2
      by (intro exI [of _ b]) simp
  qed
qed

subsection \<open>The example leagues\<close>

lemma sample_constructed: "League_init 7 2017 sample_response = Inr sample_league"
  by (simp add: League_init_def fetch_league_def fetch_teams_def Let_def sample_response_def
      sample_league_def Team_init_def game_def bye_def schedule_entry_def link_schedule_def
      deref_def score_at_def sort_by_id_def)

lemma wide_constructed: "League_init 7 2017 wide_response = Inr wide_league"
  by (simp add: League_init_def fetch_league_def fetch_teams_def Let_def wide_response_def
      wide_league_def Team_init_def game_def schedule_entry_def link_schedule_def
      deref_def score_at_def sort_by_id_def)

lemma win_matrix_sample: "win_matrix sample_league 3 = Inr sample_matrix"
  by (simp add: win_matrix_def teams_sorted_def sort_by_id_def sample_league_def sample_matrix_def
     team_wins_def week_pairs_def slice_to_def deref_def incr_at_def)

lemma win_matrix_sample_weeks:
  "win_matrix sample_league 1 = Inr sample_matrix_week1"
  "win_matrix sample_league 2 = Inr sample_matrix_week2"
  by (simp_all add: win_matrix_def teams_sorted_def sort_by_id_def sample_league_def
     sample_matrix_week1_def sample_matrix_week2_def
     team_wins_def week_pairs_def slice_to_def deref_def incr_at_def)

lemma sample_scores:
  "direct_score sample_matrix 0 = 2" "indirect_score sample_matrix 0 = 1"
  "two_step_dominance sample_matrix = [3, 1, 0]"
  by code_simp+

lemma sample_dominance_weeks:
  "two_step_dominance sample_matrix_week1 = [1, 0, 0]"
  "two_step_dominance sample_matrix_week2 = [2, 0, 0]"
  by code_simp+

lemma teams_sorted_sample: "teams_sorted sample_league = [1, 0, 2]"
  by (simp add: teams_sorted_def sort_by_id_def sample_league_def)

subsection \<open>The win matrix\<close>

lemma win_rows_InrD:
  "win_rows h as W = Inr wm \<Longrightarrow>
   length wm = length as \<and>
   (\<forall>i<length as. as ! i < length h \<and> team_wins h (h ! (as ! i)) W = Inr (wm ! i))"
proof (induction as arbitrary: wm)
  case Nil
  then show ?case by simp
next
  case (Cons a as)
  from Cons.prems obtain ws rows where
    a: "a < length h" and ws: "team_wins h (h ! a) W = Inr ws" and
    rows: "win_rows h as W = Inr rows" and wm: "wm = ws # rows"
    by (auto simp: deref_def split: sum.splits if_splits)
  from Cons.IH [OF rows] have
    len: "length rows = length as" and
    ih: "\<forall>i<length as. as ! i < length h \<and> team_wins h (h ! (as ! i)) W = Inr (rows ! i)"
    by auto
  show ?case
  proof (intro conjI allI impI)
    show "length wm = length (a # as)" using wm len by simp
  next
    fix i assume i: "i < length (a # as)"
    show "(a # as) ! i < length h" using i a ih by (cases i) auto
    show "team_wins h (h ! ((a # as) ! i)) W = Inr (wm ! i)"
      using i ws wm ih by (cases i) auto
  qed
qed

lemma win_rows_total:
  "\<forall>a\<in>set as. a < length h \<and> (\<exists>ws. team_wins h (h ! a) W = Inr ws) \<Longrightarrow>
   \<exists>wm. win_rows h as W = Inr wm"
  by (induction as) (auto simp: deref_def)

lemma teams_sorted_props:
  "set (teams_sorted L) = set (teams L)"
  "length (teams_sorted L) = length (teams L)"
  "sorted (map (\<lambda>a. team_id (objs L ! a)) (teams_sorted L))"
  by (simp_all add: teams_sorted_def sort_by_id_def)

lemma hits_is_beats:
  "within_capacity h ps \<Longrightarrow> filter (hits_slot h 32 s) ps = filter (beats_slot h s) ps"
  by (rule filter_cong)
     (auto simp: within_capacity_def hits_slot_def beats_slot_def py_index_def split: opponent.splits)

lemma team_wins_counts:
  assumes "within_capacity h (week_pairs t W)"
  shows "\<exists>ws. team_wins h t W = Inr ws \<and> length ws = 32 \<and>
           (\<forall>s<32. ws ! s = int (length (filter (beats_slot h s) (week_pairs t W))))"
proof -
  from count_wins_total [OF assms, of "replicate 32 0"] obtain ws where
    ws: "count_wins h (week_pairs t W) (replicate 32 0) = Inr ws" by auto
  have len: "length ws = 32" using count_wins_length [OF ws] by simp
  have "ws ! s = int (length (filter (beats_slot h s) (week_pairs t W)))" if "s < 32" for s
    using count_wins_slots [OF ws, of s] that hits_is_beats [OF assms, of s] by simp
  with ws len show ?thesis by (auto simp: team_wins_def)
qed

text \<open>
  Claim C2, as amended. Let the week \<open>W\<close> be at least 0 and let, for every team, every
  opponent among its first \<open>W\<close> (margin, opponent) pairs be a Team instance, with an
  id from 1 to 32 where the margin is positive. Then the builder returns one vector per
  team, the teams taken in ascending order of their id; each vector has length 32,
  whatever the number of teams; and its slot \<open>s\<close> holds the number of those pairs whose
  margin is strictly positive and whose opponent has \<open>team_id - 1 = s\<close>. So a positive
  margin adds exactly 1 to the slot of the opponent, and a margin of 0 or below adds
  nothing anywhere.
\<close>

theorem win_matrix_counts_wins:
  assumes "0 \<le> W"
    and "\<forall>a\<in>set (teams L). a < length (objs L) \<and>
            within_capacity (objs L) (week_pairs (objs L ! a) W)"
  shows "\<exists>wm. win_matrix L W = Inr wm \<and> length wm = length (teams L) \<and>
           set (teams_sorted L) = set (teams L) \<and>
           sorted (map (\<lambda>a. team_id (objs L ! a)) (teams_sorted L)) \<and>
           (\<forall>i<length wm. length (wm ! i) = 32 \<and>
              (\<forall>s<32. wm ! i ! s =
                 int (length (filter (beats_slot (objs L) s)
                   (take (nat W) (zip (mov (objs L ! (teams_sorted L ! i)))
                                      (schedule (objs L ! (teams_sorted L ! i)))))))))"
proof -
  have all: "\<forall>a\<in>set (teams_sorted L). a < length (objs L) \<and>
               (\<exists>ws. team_wins (objs L) (objs L ! a) W = Inr ws)"
    using assms(2) team_wins_counts by (fastforce simp: teams_sorted_props(1))
  from win_rows_total [OF this] obtain wm where wm: "win_matrix L W = Inr wm"
    by (auto simp: win_matrix_def)
  note D = win_rows_InrD [OF wm [unfolded win_matrix_def]]
  have len: "length wm = length (teams L)" using D by (simp add: teams_sorted_props(2))
  have row: "length (wm ! i) = 32 \<and>
              (\<forall>s<32. wm ! i ! s =
                 int (length (filter (beats_slot (objs L) s)
                   (take (nat W) (zip (mov (objs L ! (teams_sorted L ! i)))
                                      (schedule (objs L ! (teams_sorted L ! i))))))))"
    if i: "i < length wm" for i
  proof -
    let ?a = "teams_sorted L ! i"
    from i D have tw: "team_wins (objs L) (objs L ! ?a) W = Inr (wm ! i)" by simp
    from i D have "?a \<in> set (teams L)"
      by (metis nth_mem teams_sorted_props(1))
    with assms(2) have "within_capacity (objs L) (week_pairs (objs L ! ?a) W)" by blast
    from team_wins_counts [OF this] tw show ?thesis
      by (simp add: week_pairs_nonneg [OF assms(1)])
  qed
  show ?thesis
    using wm len row teams_sorted_props [of L] by blast
qed

theorem win_matrix_counts_wins_witness:
  "win_matrix sample_league 3 =
     Inr [(replicate 32 0)[1 := 1, 2 := 1], (replicate 32 0)[2 := 1], replicate 32 0]"
proof -
  have w: "(0::int) \<le> 3" by simp
  have c: "\<forall>a\<in>set (teams sample_league). a < length (objs sample_league) \<and>
            within_capacity (objs sample_league) (week_pairs (objs sample_league ! a) 3)"
    by (simp add: sample_league_def within_capacity_def week_pairs_def slice_to_def)
  from win_matrix_counts_wins [OF w c] show ?thesis
    by (simp add: win_matrix_def teams_sorted_def sort_by_id_def sample_league_def
     team_wins_def week_pairs_def slice_to_def deref_def incr_at_def)
qed

text \<open>
  Claim C2 as stated, for every team and every week, fails: a win against the team with
  id 33 indexes slot 32 of a list of 32 slots, and the builder raises IndexError instead
  of producing a vector.
\<close>

theorem win_vector_overflow_counterexample:
  "team_wins (objs wide_league) (objs wide_league ! 0) 1 = Inl IndexError \<and>
   win_matrix wide_league 1 = Inl IndexError"
  by (simp add: win_matrix_def teams_sorted_def sort_by_id_def wide_league_def
     team_wins_def week_pairs_def slice_to_def deref_def incr_at_def)

subsection \<open>Margin and opponent lists of different lengths\<close>

lemma slice_to_int: "slice_to zs (int n) = take n zs"
  by (simp add: slice_to_def)

lemma zip_cut:
  "zip (take (min (length xs) (length ys)) xs) (take (min (length xs) (length ys)) ys) = zip xs ys"
  by (simp add: take_zip [symmetric])

text \<open>
  Claim C8, as amended. When the margin list and the opponent list of a team differ in
  length after the truncation to the week, the builder raises no error on that account:
  \<open>zip\<close> pairs them up to the length of the shorter list, and the vector of the team is
  the one of the team with both lists cut to that length.
\<close>

theorem team_wins_cut_to_shorter:
  "team_wins h t W = team_wins h (cut_to_shorter t W) (int (shorter_length t W)) \<and>
   length (mov (cut_to_shorter t W)) = shorter_length t W \<and>
   length (schedule (cut_to_shorter t W)) = shorter_length t W"
proof -
  have "week_pairs (cut_to_shorter t W) (int (shorter_length t W)) = week_pairs t W"
    by (simp add: week_pairs_def cut_to_shorter_def shorter_length_def slice_to_int zip_cut)
  then show ?thesis
    by (simp add: team_wins_def cut_to_shorter_def shorter_length_def)
qed

text \<open>
  Claim C8 as stated fails: with one margin and two opponents on record for the first
  team, \<open>power_rankings(2)\<close> raises nothing and counts the one win.
\<close>

theorem short_mov_not_rejected_counterexample:
  "length (slice_to (mov (objs short_mov_league ! 0)) 2) \<noteq>
     length (slice_to (schedule (objs short_mov_league ! 0)) 2) \<and>
   win_matrix short_mov_league 2 = Inr [(replicate 32 0)[1 := 1], replicate 32 0] \<and>
   \<not> isl (fst (power_rankings dominance_first short_mov_league 2))"
  by (simp add: power_rankings_def win_matrix_def teams_sorted_def sort_by_id_def short_mov_league_def
     team_wins_def week_pairs_def slice_to_def deref_def incr_at_def)

subsection \<open>Dominance scores\<close>

lemma sum_list_by_index: "sum_list xs = (\<Sum>j\<leftarrow>[0..<length xs]. xs ! j)"
  by (simp add: map_nth)

lemma dot_by_index:
  "sum_list (map2 (*) xs ys) =
     (\<Sum>j\<leftarrow>[0..<length xs]. xs ! j * (if j < length ys then ys ! j else (0::int)))"
proof (induction xs ys rule: list_induct2')
  case (4 x xs y ys)
  then show ?case by (simp add: map_upt_Suc del: upt_Suc cong: if_cong)
qed simp_all

lemma direct_score_eq: "direct_score X j = (if j < length X then sum_list (X ! j) else 0)"
  by (simp add: direct_score_def matrix_row_def sum_list_by_index [symmetric])

lemma two_step_dominance_nth:
  assumes "i < length X"
  shows "two_step_dominance X ! i = direct_score X i + indirect_score X i"
proof -
  have d: "direct_scores X ! i = direct_score X i"
    using assms by (simp add: direct_scores_def direct_score_eq)
  have "matrix_vector X (direct_scores X) ! i = sum_list (map2 (*) (X ! i) (direct_scores X))"
    using assms by (simp add: matrix_vector_def)
  also have "\<dots> = (\<Sum>j\<leftarrow>[0..<length (X ! i)].
                      X ! i ! j * (if j < length (direct_scores X) then direct_scores X ! j else 0))"
    by (rule dot_by_index)
  also have "\<dots> = (\<Sum>j\<leftarrow>[0..<length (X ! i)]. X ! i ! j * direct_score X j)"
    by (rule arg_cong [where f = sum_list], rule map_cong)
       (auto simp: direct_scores_def direct_score_eq)
  also have "\<dots> = indirect_score X i"
    using assms by (simp add: indirect_score_def matrix_row_def)
  finally have m: "matrix_vector X (direct_scores X) ! i = indirect_score X i" .
  have "two_step_dominance X ! i = direct_scores X ! i + matrix_vector X (direct_scores X) ! i"
    using assms by (simp add: two_step_dominance_def direct_scores_def matrix_vector_def)
  with d m show ?thesis by simp
qed

lemma length_two_step_dominance: "length (two_step_dominance X) = length X"
  by (simp add: two_step_dominance_def direct_scores_def matrix_vector_def)

text \<open>
  Claim C1. For every win matrix that \<open>power_rankings\<close> builds for a week \<open>W\<close>, there is
  one dominance score per team, and the dominance score of team \<open>i\<close> is its direct score
  plus its indirect score: the sum over all \<open>j\<close> of \<open>matrix[i][j]\<close>, plus the sum over
  all \<open>j\<close> of \<open>matrix[i][j]\<close> times the direct score of \<open>j\<close>.
\<close>

theorem dominance_is_direct_plus_indirect:
  assumes "win_matrix L W = Inr wm" and "i < length wm"
  shows "length (two_step_dominance wm) = length wm \<and>
         two_step_dominance wm ! i = direct_score wm i + indirect_score wm i"
  using assms(2) by (simp add: two_step_dominance_nth length_two_step_dominance)

theorem dominance_is_direct_plus_indirect_witness:
  "win_matrix sample_league 3 = Inr sample_matrix \<and> 0 < length sample_matrix \<and>
   two_step_dominance sample_matrix ! 0 = 3 \<and>
   direct_score sample_matrix 0 = 2 \<and> indirect_score sample_matrix 0 = 1"
  using dominance_is_direct_plus_indirect [OF win_matrix_sample, of 0]
  by (simp add: win_matrix_sample sample_scores) (simp add: sample_matrix_def)

subsection \<open>Dominance over the weeks\<close>

lemma direct_score_mono:
  assumes "matrix_le A B"
  shows "0 \<le> direct_score A j \<and> direct_score A j \<le> direct_score B j"
proof (cases "j < length A")
  case True
  with assms have len: "length (A ! j) = length (B ! j)" and jb: "j < length B"
    and le: "\<And>k. k < length (A ! j) \<Longrightarrow> 0 \<le> A ! j ! k \<and> A ! j ! k \<le> B ! j ! k"
    by (auto simp: matrix_le_def)
  have "0 \<le> (\<Sum>k\<leftarrow>[0..<length (A ! j)]. A ! j ! k)"
    by (rule sum_list_nonneg) (use le in auto)
  moreover have "(\<Sum>k\<leftarrow>[0..<length (A ! j)]. A ! j ! k) \<le> (\<Sum>k\<leftarrow>[0..<length (A ! j)]. B ! j ! k)"
    by (rule sum_list_mono) (use le in auto)
  ultimately show ?thesis
    using True jb len by (simp add: direct_score_def matrix_row_def)
next
  case False
  with assms show ?thesis by (simp add: direct_score_def matrix_row_def matrix_le_def)
qed

lemma indirect_score_mono:
  assumes "matrix_le A B" and "i < length A"
  shows "indirect_score A i \<le> indirect_score B i"
proof -
  from assms have len: "length (A ! i) = length (B ! i)" and ib: "i < length B"
    and le: "\<And>k. k < length (A ! i) \<Longrightarrow> 0 \<le> A ! i ! k \<and> A ! i ! k \<le> B ! i ! k"
    by (auto simp: matrix_le_def)
  have "(\<Sum>k\<leftarrow>[0..<length (A ! i)]. A ! i ! k * direct_score A k)
          \<le> (\<Sum>k\<leftarrow>[0..<length (A ! i)]. B ! i ! k * direct_score B k)"
  proof (rule sum_list_mono)
    fix k assume "k \<in> set [0..<length (A ! i)]"
    then have k: "k < length (A ! i)" by simp
    show "A ! i ! k * direct_score A k \<le> B ! i ! k * direct_score B k"
      using le [OF k] direct_score_mono [OF assms(1), of k] by (intro mult_mono) auto
  qed
  then show ?thesis
    using assms(2) ib len by (simp add: indirect_score_def matrix_row_def)
qed

lemma two_step_dominance_mono:
  assumes "matrix_le A B" and "i < length A"
  shows "two_step_dominance A ! i \<le> two_step_dominance B ! i"
proof -
  from assms have ib: "i < length B" by (simp add: matrix_le_def)
  show ?thesis
    using direct_score_mono [OF assms(1), of i] indirect_score_mono [OF assms]
    by (simp add: two_step_dominance_nth [OF assms(2)] two_step_dominance_nth [OF ib])
qed

lemma week_pairs_prefix:
  assumes "0 \<le> W1" and "W1 \<le> W2"
  shows "\<exists>qs. week_pairs t W2 = week_pairs t W1 @ qs"
proof -
  have "nat W2 = nat W1 + (nat W2 - nat W1)" using assms by simp
  then have "take (nat W2) (zip (mov t) (schedule t)) =
      take (nat W1) (zip (mov t) (schedule t)) @
      take (nat W2 - nat W1) (drop (nat W1) (zip (mov t) (schedule t)))"
    by (metis take_add)
  with assms show ?thesis by (simp add: week_pairs_nonneg)
qed

lemma count_wins_grows:
  assumes "count_wins h ps ws = Inr ws'" and "s < length ws"
  shows "ws ! s \<le> ws' ! s"
  using count_wins_slots [OF assms] by simp

lemma team_wins_earlier:
  assumes "0 \<le> W1" and "W1 \<le> W2" and "team_wins h t W2 = Inr ws2"
  shows "\<exists>ws1. team_wins h t W1 = Inr ws1 \<and> length ws1 = length ws2 \<and>
           (\<forall>s<length ws1. 0 \<le> ws1 ! s \<and> ws1 ! s \<le> ws2 ! s)"
proof -
  from week_pairs_prefix [OF assms(1,2)] obtain qs where
    qs: "week_pairs t W2 = week_pairs t W1 @ qs" by blast
  from assms(3) obtain ws1 where
    w1: "count_wins h (week_pairs t W1) (replicate 32 0) = Inr ws1" and
    w2: "count_wins h qs ws1 = Inr ws2"
    by (auto simp: team_wins_def qs count_wins_append split: sum.splits)
  have l1: "length ws1 = 32" using count_wins_length [OF w1] by simp
  have l2: "length ws2 = length ws1" using count_wins_length [OF w2] .
  have "0 \<le> ws1 ! s \<and> ws1 ! s \<le> ws2 ! s" if "s < length ws1" for s
    using count_wins_grows [OF w1, of s] count_wins_grows [OF w2, of s] that l1 by simp
  with w1 l2 show ?thesis by (auto simp: team_wins_def)
qed

lemma win_matrix_earlier:
  assumes "0 \<le> W1" and "W1 \<le> W2" and "win_matrix L W2 = Inr wm2"
  shows "\<exists>wm1. win_matrix L W1 = Inr wm1 \<and> matrix_le wm1 wm2"
proof -
  let ?h = "objs L" and ?ts = "teams_sorted L"
  note D2 = win_rows_InrD [OF assms(3) [unfolded win_matrix_def]]
  have "\<forall>a\<in>set ?ts. a < length ?h \<and> (\<exists>ws. team_wins ?h (?h ! a) W1 = Inr ws)"
  proof
    fix a assume "a \<in> set ?ts"
    then obtain i where i: "i < length ?ts" and a: "a = ?ts ! i"
      by (auto simp: in_set_conv_nth)
    with D2 have "a < length ?h" and "team_wins ?h (?h ! a) W2 = Inr (wm2 ! i)" by auto
    with team_wins_earlier [OF assms(1,2)]
    show "a < length ?h \<and> (\<exists>ws. team_wins ?h (?h ! a) W1 = Inr ws)" by blast
  qed
  from win_rows_total [OF this] obtain wm1 where wm1: "win_matrix L W1 = Inr wm1"
    by (auto simp: win_matrix_def)
  note D1 = win_rows_InrD [OF wm1 [unfolded win_matrix_def]]
  have "matrix_le wm1 wm2"
    unfolding matrix_le_def
  proof (intro conjI allI impI)
    show "length wm1 = length wm2" using D1 D2 by simp
  next
    fix i assume i: "i < length wm1"
    with D1 D2 have t1: "team_wins ?h (?h ! (?ts ! i)) W1 = Inr (wm1 ! i)"
      and t2: "team_wins ?h (?h ! (?ts ! i)) W2 = Inr (wm2 ! i)" by auto
    from team_wins_earlier [OF assms(1,2) t2] t1
    have len: "length (wm1 ! i) = length (wm2 ! i)"
      and le: "\<forall>s<length (wm1 ! i). 0 \<le> wm1 ! i ! s \<and> wm1 ! i ! s \<le> wm2 ! i ! s"
      by auto
    show "length (wm1 ! i) = length (wm2 ! i)" by (rule len)
    fix j assume "j < length (wm1 ! i)"
    with le show "0 \<le> wm1 ! i ! j" and "wm1 ! i ! j \<le> wm2 ! i ! j" by auto
  qed
  with wm1 show ?thesis by blast
qed

text \<open>
  Claim C4. Let \<open>0 \<le> W1 < W2\<close>, let the win matrix of week \<open>W2\<close> be built, and let the
  weeks added between \<open>W1\<close> and \<open>W2\<close> hold only strictly positive margins for team
  \<open>A\<close> (row \<open>i\<close>). Then the win matrix of week \<open>W1\<close> is built as well, and the dominance
  score of \<open>A\<close> at week \<open>W2\<close> is at least its dominance score at week \<open>W1\<close>. (The proof
  does not need the margins of \<open>A\<close>: every counter of the matrix can only grow with the
  week.)
\<close>

theorem dominance_monotone_in_week:
  assumes "0 \<le> W1" and "W1 < W2"
    and "win_matrix L W2 = Inr wm2" and "i < length wm2"
    and "\<forall>k. W1 \<le> int k \<and> int k < W2 \<and> k < length (mov (objs L ! (teams_sorted L ! i)))
            \<longrightarrow> 0 < mov (objs L ! (teams_sorted L ! i)) ! k"
  shows "\<exists>wm1. win_matrix L W1 = Inr wm1 \<and> length wm1 = length wm2 \<and>
           two_step_dominance wm1 ! i \<le> two_step_dominance wm2 ! i"
proof -
  from assms(2) have "W1 \<le> W2" by simp
  from win_matrix_earlier [OF assms(1) this assms(3)] obtain wm1 where
    wm1: "win_matrix L W1 = Inr wm1" and le: "matrix_le wm1 wm2" by blast
  from le assms(4) have i: "i < length wm1" and len: "length wm1 = length wm2"
    by (simp_all add: matrix_le_def)
  from two_step_dominance_mono [OF le i] wm1 len show ?thesis by blast
qed

theorem dominance_monotone_in_week_witness:
  "win_matrix sample_league 1 = Inr sample_matrix_week1 \<and>
   win_matrix sample_league 2 = Inr sample_matrix_week2 \<and>
   mov (objs sample_league ! (teams_sorted sample_league ! 0)) = [10, 13, 0] \<and>
   two_step_dominance sample_matrix_week1 ! 0 = 1 \<and>
   two_step_dominance sample_matrix_week2 ! 0 = 2"
proof -
  have w1: "(0::int) \<le> 1" and w2: "(1::int) < 2" by simp_all
  have i: "0 < length sample_matrix_week2" by (simp add: sample_matrix_week2_def)
  have wins: "\<forall>k. 1 \<le> int k \<and> int k < 2 \<and>
                k < length (mov (objs sample_league ! (teams_sorted sample_league ! 0)))
            \<longrightarrow> 0 < mov (objs sample_league ! (teams_sorted sample_league ! 0)) ! k"
  proof (intro allI impI)
    fix k assume "1 \<le> int k \<and> int k < 2 \<and>
                k < length (mov (objs sample_league ! (teams_sorted sample_league ! 0)))"
    then have "k = 1" by linarith
    then show "0 < mov (objs sample_league ! (teams_sorted sample_league ! 0)) ! k"
      by (simp add: teams_sorted_sample) (simp add: sample_league_def)
  qed
  from dominance_monotone_in_week [OF w1 w2 win_matrix_sample_weeks(2) i wins]
  show ?thesis
    by (simp add: win_matrix_sample_weeks sample_dominance_weeks teams_sorted_sample)
       (simp add: sample_league_def)
qed

subsection \<open>A team's own slot\<close>

lemma week_pairs_set:
  assumes "p \<in> set (week_pairs t W)"
  shows "\<exists>k. k < length (mov t) \<and> k < length (schedule t) \<and> p = (mov t ! k, schedule t ! k)"
proof -
  from assms obtain m n where "p \<in> set (zip (take m (mov t)) (take n (schedule t)))"
    by (auto simp: week_pairs_def slice_to_def split: if_splits)
  then obtain k where "k < length (take m (mov t))" "k < length (take n (schedule t))"
    "p = (take m (mov t) ! k, take n (schedule t) ! k)"
    by (auto simp: set_zip)
  then show ?thesis by (intro exI [of _ k]) simp
qed

lemma constructed_within_capacity:
  assumes "League_init lid yr r = Inr L"
    and "\<forall>t\<in>set (objs L). 1 \<le> team_id t \<and> team_id t \<le> 32"
    and "a < length (objs L)"
  shows "within_capacity (objs L) (week_pairs (objs L ! a) W)"
  unfolding within_capacity_def
proof
  fix p assume "p \<in> set (week_pairs (objs L ! a) W)"
  from week_pairs_set [OF this] obtain k where
    k: "k < length (schedule (objs L ! a))" and p: "p = (mov (objs L ! a) ! k, schedule (objs L ! a) ! k)"
    by blast
  from League_init_Inr(4) [OF assms(1,3) k] obtain b where
    b: "b < length (objs L)" and sb: "schedule (objs L ! a) ! k = TeamObj b" by blast
  from b assms(2) have "1 \<le> team_id (objs L ! b) \<and> team_id (objs L ! b) \<le> 32"
    using nth_mem by blast
  with p sb b show "case snd p of
          TeamObj b \<Rightarrow> b < length (objs L) \<and>
            (0 < fst p \<longrightarrow> 1 \<le> team_id (objs L ! b) \<and> team_id (objs L ! b) \<le> 32)
        | OpponentId i \<Rightarrow> False"
    by simp
qed

text \<open>
  Claim C5. In a League as constructed, with team ids that are unique and positive, the
  slot of a team's own id in its own win vector is 0 at every week. A week whose schedule
  entry is the team itself, as for a bye, where \<open>_fetch_schedule\<close> records the home
  team of the item, has the margin 0 and so counts for nothing.
\<close>

theorem own_slot_is_zero:
  assumes "League_init lid yr r = Inr L"
    and "distinct (map team_id (objs L))"
    and "\<forall>t\<in>set (objs L). 1 \<le> team_id t"
    and "win_matrix L W = Inr wm" and "i < length wm"
    and "team_id (objs L ! (teams_sorted L ! i)) \<le> 32"
  shows "wm ! i ! nat (team_id (objs L ! (teams_sorted L ! i)) - 1) = 0 \<and>
         (\<forall>k<length (schedule (objs L ! (teams_sorted L ! i))).
            schedule (objs L ! (teams_sorted L ! i)) ! k = TeamObj (teams_sorted L ! i) \<longrightarrow>
            mov (objs L ! (teams_sorted L ! i)) ! k = 0)"
proof -
  let ?h = "objs L"
  let ?a = "teams_sorted L ! i"
  let ?t = "?h ! ?a"
  let ?s = "nat (team_id ?t - 1)"
  note D = win_rows_InrD [OF assms(4) [unfolded win_matrix_def]]
  from D assms(5) have a: "?a < length ?h" and tw: "team_wins ?h ?t W = Inr (wm ! i)"
    by auto
  from a assms(3) have id1: "1 \<le> team_id ?t" using nth_mem by blast
  with assms(6) have s: "?s < 32" by simp
  have no_hit: "\<not> hits_slot ?h 32 ?s p" if "p \<in> set (week_pairs ?t W)" for p
  proof
    assume hit: "hits_slot ?h 32 ?s p"
    from week_pairs_set [OF that] obtain k where
      k: "k < length (schedule ?t)" and p: "p = (mov ?t ! k, schedule ?t ! k)" by blast
    from League_init_Inr(4) [OF assms(1) a k] obtain b where
      b: "b < length ?h" and sb: "schedule ?t ! k = TeamObj b" and
      mk: "mov ?t ! k = scores ?t ! k - scores (?h ! b) ! k" by blast
    from b assms(3) have idb: "1 \<le> team_id (?h ! b)" using nth_mem by blast
    from hit p sb have pos: "0 < mov ?t ! k"
      and ix: "py_index 32 (team_id (?h ! b) - 1) = int ?s"
      by (simp_all add: hits_slot_def)
    from ix idb id1 have "team_id (?h ! b) = team_id ?t"
      by (simp add: py_index_def)
    then have "map team_id ?h ! b = map team_id ?h ! ?a" using a b by simp
    with nth_eq_iff_index_eq [OF assms(2), of b ?a] a b have "b = ?a" by simp
    with mk pos show False by simp
  qed
  then have "filter (hits_slot ?h 32 ?s) (week_pairs ?t W) = []"
    by (simp add: filter_empty_conv)
  with count_wins_slots [OF tw [unfolded team_wins_def], of ?s] s
  have slot: "wm ! i ! ?s = 0" by simp
  have self: "mov ?t ! k = 0" if "k < length (schedule ?t)" "schedule ?t ! k = TeamObj ?a" for k
    using League_init_Inr(4) [OF assms(1) a that(1)] that(2) by auto
  from slot self show ?thesis by blast
qed

theorem own_slot_is_zero_witness:
  "League_init 7 2017 sample_response = Inr sample_league \<and>
   win_matrix sample_league 3 = Inr sample_matrix \<and>
   team_id (objs sample_league ! (teams_sorted sample_league ! 0)) = 1 \<and>
   schedule (objs sample_league ! 1) ! 2 = TeamObj 1 \<and>
   mov (objs sample_league ! 1) ! 2 = 0 \<and>
   sample_matrix ! 0 ! 0 = 0"
proof -
  have d: "distinct (map team_id (objs sample_league))"
    and p: "\<forall>t\<in>set (objs sample_league). 1 \<le> team_id t"
    and i: "0 < length sample_matrix"
    and c: "team_id (objs sample_league ! (teams_sorted sample_league ! 0)) \<le> 32"
    by (simp_all add: teams_sorted_sample sample_matrix_def) (simp_all add: sample_league_def)
  from own_slot_is_zero [OF sample_constructed d p win_matrix_sample i c]
  show ?thesis
    by (simp add: sample_constructed win_matrix_sample teams_sorted_sample)
       (simp add: sample_league_def)
qed

subsection \<open>The order of the ranking\<close>

lemma ranks_before_total: "\<not> ranks_before h p q \<Longrightarrow> ranks_before h q p"
  by (auto simp: ranks_before_def)

lemma ranks_before_trans: "ranks_before h p q \<Longrightarrow> ranks_before h q r \<Longrightarrow> ranks_before h p r"
  by (auto simp: ranks_before_def)

lemma set_insert_ranked: "set (insert_ranked h p qs) = insert p (set qs)"
  by (induction qs) auto

lemma sorted_insert_ranked:
  "sorted_wrt (ranks_before h) qs \<Longrightarrow> sorted_wrt (ranks_before h) (insert_ranked h p qs)"
proof (induction qs)
  case Nil
  then show ?case by simp
next
  case (Cons q qs)
  show ?case
  proof (cases "ranks_before h p q")
    case True
    with Cons.prems show ?thesis
      by (auto intro: ranks_before_trans)
  next
    case False
    then have "ranks_before h q p" by (rule ranks_before_total)
    with False Cons show ?thesis
      by (auto simp: set_insert_ranked)
  qed
qed

lemma sort_ranked_props:
  "set (sort_ranked h ps) = set ps"
  "length (sort_ranked h ps) = length ps"
  "sorted_wrt (ranks_before h) (sort_ranked h ps)"
proof -
  have len: "length (insert_ranked h p qs) = Suc (length qs)" for p qs
    by (induction qs) auto
  show "set (sort_ranked h ps) = set ps"
    by (induction ps) (auto simp: set_insert_ranked)
  show "length (sort_ranked h ps) = length ps"
    by (induction ps) (auto simp: len)
  show "sorted_wrt (ranks_before h) (sort_ranked h ps)"
    by (induction ps) (auto simp: sorted_insert_ranked)
qed

lemma map_fst_scored:
  "length ds = length as \<Longrightarrow> map fst (map2 (\<lambda>d a. (a, g d a)) ds as) = as"
  by (induction ds as rule: list_induct2) auto

lemma power_points_props:
  assumes "length dominance = length ts"
  shows "length (power_points blend h dominance ts W) = length ts"
    and "set (map fst (power_points blend h dominance ts W)) = set ts"
    and "sorted_wrt (ranks_before h) (power_points blend h dominance ts W)"
proof -
  let ?ps = "map2 (\<lambda>d a. (a, final_score blend d (h ! a) W)) dominance ts"
  show "length (power_points blend h dominance ts W) = length ts"
    using assms by (simp add: power_points_def sort_ranked_props(2))
  have "set (map fst (sort_ranked h ?ps)) = set (map fst ?ps)"
    by (simp only: set_map sort_ranked_props(1))
  also have "\<dots> = set ts" using map_fst_scored [OF assms] by metis
  finally show "set (map fst (power_points blend h dominance ts W)) = set ts"
    by (simp add: power_points_def)
  show "sorted_wrt (ranks_before h) (power_points blend h dominance ts W)"
    by (simp add: power_points_def sort_ranked_props(3))
qed

text \<open>
  Claim C3, as amended. For every League as constructed whose team ids lie between 1 and
  32, and every week, \<open>power_rankings\<close> returns one pair (team, score) per team, the
  scores descending, and of two teams with equal score the one with the lower id first.
\<close>

theorem power_rankings_ordered:
  assumes "League_init lid yr r = Inr L"
    and "\<forall>t\<in>set (objs L). 1 \<le> team_id t \<and> team_id t \<le> 32"
  shows "\<exists>rk. fst (power_rankings blend L W) = Inr rk \<and> length rk = length (teams L) \<and>
           set (map fst rk) = set (teams L) \<and>
           (\<forall>i j. i < j \<and> j < length rk \<longrightarrow>
              snd (rk ! j) \<le> snd (rk ! i) \<and>
              (snd (rk ! i) = snd (rk ! j) \<longrightarrow>
                 team_id (objs L ! fst (rk ! i)) \<le> team_id (objs L ! fst (rk ! j))))"
proof -
  let ?h = "objs L" and ?ts = "teams_sorted L"
  have "\<forall>a\<in>set ?ts. a < length ?h \<and> (\<exists>ws. team_wins ?h (?h ! a) W = Inr ws)"
  proof
    fix a assume "a \<in> set ?ts"
    then have a: "a < length ?h"
      using League_init_Inr(1) [OF assms(1)] by (simp add: teams_sorted_props(1))
    from team_wins_counts [OF constructed_within_capacity [OF assms a]] a
    show "a < length ?h \<and> (\<exists>ws. team_wins ?h (?h ! a) W = Inr ws)" by blast
  qed
  from win_rows_total [OF this] obtain wm where wm: "win_matrix L W = Inr wm"
    by (auto simp: win_matrix_def)
  have len: "length (two_step_dominance wm) = length ?ts"
    using win_rows_InrD [OF wm [unfolded win_matrix_def]] by (simp add: length_two_step_dominance)
  define rk where "rk = power_points blend ?h (two_step_dominance wm) ?ts W"
  have res: "fst (power_rankings blend L W) = Inr rk"
    by (simp add: power_rankings_def wm rk_def)
  note P = power_points_props [OF len, where blend = blend and h = ?h and W = W, folded rk_def]
  have ord: "snd (rk ! j) \<le> snd (rk ! i) \<and>
              (snd (rk ! i) = snd (rk ! j) \<longrightarrow>
                 team_id (?h ! fst (rk ! i)) \<le> team_id (?h ! fst (rk ! j)))"
    if "i < j" "j < length rk" for i j
    using sorted_wrt_nth_less [OF P(3) that] by (auto simp: ranks_before_def)
  show ?thesis
    using res P(1,2) ord by (auto simp: teams_sorted_props)
qed

theorem power_rankings_ordered_witness:
  "League_init 7 2017 sample_response = Inr sample_league \<and>
   fst (power_rankings dominance_first sample_league 3) =
     Inr [(1, 9053 / 3000), (0, 3037 / 3000), (2, 7 / 600)] \<and>
   fst (power_rankings dominance_first sample_league 0) = Inr [(1, 0), (0, 0), (2, 0)]"
proof -
  have ids: "\<forall>t\<in>set (objs sample_league). 1 \<le> team_id t \<and> team_id t \<le> 32"
    by (simp add: sample_league_def)
  have z: "two_step_dominance [replicate 32 0, replicate 32 0, replicate 32 0] = [0, 0, 0]"
    by code_simp
  have w0: "win_matrix sample_league 0 = Inr [replicate 32 0, replicate 32 0, replicate 32 0]"
    by (simp add: win_matrix_def teams_sorted_def sort_by_id_def sample_league_def
     team_wins_def week_pairs_def slice_to_def deref_def)
  from power_rankings_ordered [OF sample_constructed ids, of dominance_first 3]
  show ?thesis
    by (simp add: sample_constructed power_rankings_def win_matrix_sample sample_scores w0 z
        teams_sorted_sample power_points_def)
       (simp add: sample_league_def final_score_def dominance_first_def ranks_before_def)
qed

text \<open>
  Claim C3 as stated, for every League as constructed, fails: in the league of the teams
  1 and 33 the win of team 1 in week 1 makes \<open>power_rankings(1)\<close> raise IndexError, and
  no ranking is returned.
\<close>

theorem power_rankings_overflow_counterexample:
  "League_init 7 2017 wide_response = Inr wide_league \<and>
   fst (power_rankings dominance_first wide_league 1) = Inl IndexError"
  by (simp add: wide_constructed power_rankings_def)
     (simp add: win_matrix_def teams_sorted_def sort_by_id_def wide_league_def
     team_wins_def week_pairs_def slice_to_def deref_def incr_at_def)

subsection \<open>No effect on the League\<close>

text \<open>Reading through a store that keeps the objects of another.\<close>

lemma keeps_nth: "keeps s0 s \<Longrightarrow> a < length s0 \<Longrightarrow> s ! a = s0 ! a"
  by (metis keeps_def nth_take)

lemma keeps_refl: "keeps s s"
  by (simp add: keeps_def)

lemma keeps_append: "keeps s0 s \<Longrightarrow> keeps s0 (s @ xs)"
  by (simp add: keeps_def)

lemma keeps_update: "keeps s0 s \<Longrightarrow> length s0 \<le> w \<Longrightarrow> keeps s0 (s[w := ob])"
  by (simp add: keeps_def)

lemma lookup_keeps: "keeps s0 s \<Longrightarrow> a < length s0 \<Longrightarrow> lookup s a = lookup s0 a"
  by (simp add: lookup_def keeps_nth) (simp add: keeps_def)

lemma list_at_keeps: "keeps s0 s \<Longrightarrow> a < length s0 \<Longrightarrow> list_at s a = list_at s0 a"
  by (simp add: list_at_def lookup_keeps)

lemma teams_attr_keeps: "keeps s0 s \<Longrightarrow> a < length s0 \<Longrightarrow> teams_attr s a = teams_attr s0 a"
  by (simp add: teams_attr_def lookup_keeps)

lemma team_at_keeps: "keeps s0 s \<Longrightarrow> val_ok (length s0) v \<Longrightarrow> team_at s v = team_at s0 v"
  by (cases v) (simp_all add: team_at_def lookup_keeps)

lemma keyed_keeps:
  "keeps s0 s \<Longrightarrow> list_all (val_ok (length s0)) vs \<Longrightarrow> keyed s vs = keyed s0 vs"
  by (induction vs) (auto simp: team_at_keeps split: sum.splits)

text \<open>What the absence of dangling references gives.\<close>

lemma closed_obj: "closed s \<Longrightarrow> a < length s \<Longrightarrow> obj_ok (length s) (s ! a)"
  by (simp add: closed_def list_all_length)

lemma closed_list:
  "closed s \<Longrightarrow> list_at s a = Inr vs \<Longrightarrow> list_all (val_ok (length s)) vs"
  using closed_obj [of s a]
  by (auto simp: list_at_def lookup_def obj_ok_def split: if_splits obj.splits)

lemma closed_team:
  "closed s \<Longrightarrow> team_at s v = Inr c \<Longrightarrow>
   cell_mov c < length s \<and> cell_schedule c < length s"
  using closed_obj [of s "addr_of v"]
  by (cases v) (auto simp: team_at_def lookup_def obj_ok_def split: if_splits obj.splits)

lemma closed_league: "closed s \<Longrightarrow> teams_attr s self = Inr ta \<Longrightarrow> ta < length s"
  using closed_obj [of s self]
  by (auto simp: teams_attr_def lookup_def obj_ok_def split: if_splits obj.splits)

lemma keyed_addrs:
  "keyed s vs = Inr ks \<Longrightarrow> map snd ks = map addr_of vs \<and> length ks = length vs"
  by (induction vs arbitrary: ks) (auto split: sum.splits)

lemma keyed_are_refs:
  "keyed s vs = Inr ks \<Longrightarrow> list_all (val_ok n) vs \<Longrightarrow> list_all (\<lambda>a. a < n) (map snd ks)"
proof (induction vs arbitrary: ks)
  case Nil
  then show ?case by simp
next
  case (Cons v vs)
  from Cons.prems obtain c ks' where
    c: "team_at s v = Inr c" and ks': "keyed s vs = Inr ks'" and ks: "ks = (cell_id c, addr_of v) # ks'"
    by (auto split: sum.splits)
  from c Cons.prems(2) have "addr_of v < n"
    by (cases v) (simp_all add: team_at_def)
  with Cons.IH [OF ks'] Cons.prems(2) ks show ?case by simp
qed

text \<open>
  The inner loop writes only the list of counters, and leaves in it what the reading
  function computes.
\<close>

lemma incr_val_ints: "incr_val (map IntV ws) opp = map_sum id (map IntV) (incr_at ws opp)"
  by (simp add: incr_val_def incr_at_def Let_def map_update)

lemma ints_of_ints: "ints_of (map IntV ws) = Inr ws"
  by (induction ws) simp_all

lemma count_wins_st_pure:
  assumes "keeps s0 s" and "length s0 \<le> w" and "w < length s" and "s ! w = ListO (map IntV ws)"
    and "list_all (\<lambda>p. val_ok (length s0) (snd p)) ps"
    and "count_wins_st s w ps = (e, s')"
  shows "keeps s0 s' \<and> length s' = length s \<and> (\<forall>a. a \<noteq> w \<longrightarrow> s' ! a = s ! a) \<and>
         (case wins_pure s0 ps ws of
            Inl er \<Rightarrow> e = Some er
          | Inr ws' \<Rightarrow> e = None \<and> s' ! w = ListO (map IntV ws'))"
  using assms
proof (induction ps arbitrary: s ws)
  case Nil
  then show ?case by simp
next
  case (Cons p ps)
  obtain m opponent where p: "p = (m, opponent)" by (cases p)
  from Cons.prems(5) p have ok: "val_ok (length s0) opponent"
    and oks: "list_all (\<lambda>p. val_ok (length s0) (snd p)) ps" by simp_all
  have ta: "team_at s opponent = team_at s0 opponent"
    by (rule team_at_keeps [OF Cons.prems(1) ok])
  have la: "list_at s w = Inr (map IntV ws)"
    using Cons.prems(3,4) by (simp add: list_at_def lookup_def)
  show ?case
  proof (cases "team_at s0 opponent")
    case (Inl er)
    with Cons.prems p ta show ?thesis by simp
  next
    case (Inr c)
    show ?thesis
    proof (cases "positive m")
      case (Inl er)
      with Cons.prems p ta Inr show ?thesis by simp
    next
      case pos: (Inr b)
      show ?thesis
      proof (cases b)
        case False
        with Cons.prems(6) p ta Inr pos have run: "count_wins_st s w ps = (e, s')" by simp
        from Cons.IH [OF Cons.prems(1,2,3,4) oks run] p Inr pos False
        show ?thesis by simp
      next
        case True
        show ?thesis
        proof (cases "incr_at ws (cell_id c - 1)")
          case (Inl er)
          with Cons.prems p ta Inr pos True la show ?thesis
            by (simp add: incr_val_ints)
        next
          case ws': (Inr ws')
          let ?s = "s[w := ListO (map IntV ws')]"
          from Cons.prems(6) p ta Inr pos True la ws'
          have run: "count_wins_st ?s w ps = (e, s')"
            by (simp add: incr_val_ints)
          have k: "keeps s0 ?s" by (rule keeps_update [OF Cons.prems(1,2)])
          have w: "w < length ?s" and sw: "?s ! w = ListO (map IntV ws')"
            using Cons.prems(3) by simp_all
          from Cons.IH [OF k Cons.prems(2) w sw oks run] p Inr pos True ws'
          show ?thesis by auto
        qed
      qed
    qed
  qed
qed

text \<open>
  The loop over the teams writes only the win matrix and the lists it has created, and
  leaves in the matrix the rows that the reading function computes.
\<close>

lemma rows_inv_mono:
  assumes "rows_inv s wm rs xs" and "length s \<le> length s'"
    and "\<And>r. r < length s \<Longrightarrow> r \<noteq> wm \<Longrightarrow> s' ! r = s ! r"
  shows "rows_inv s' wm rs xs"
  using assms(1) unfolding rows_inv_def
  by (rule list_all2_mono) (use assms(2,3) in auto)

lemma rows_inv_snoc:
  "rows_inv s wm rs xs \<Longrightarrow> w < length s \<Longrightarrow> w \<noteq> wm \<Longrightarrow> s ! w = ListO (map IntV x) \<Longrightarrow>
   rows_inv s wm (rs @ [w]) (xs @ [x])"
  unfolding rows_inv_def by (rule list_all2_appendI) simp_all

lemma rows_inv_matrix: "rows_inv s wm rs xs \<Longrightarrow> matrix_of s (map RefV rs) = Inr xs"
  unfolding rows_inv_def
  by (induction rs xs rule: list_all2_induct)
     (simp_all add: list_at_def lookup_def ints_of_ints)

lemma slice_to_subset: "set (slice_to xs n) \<subseteq> set xs"
  by (auto simp: slice_to_def dest: in_set_takeD)

lemma pairs_ok:
  assumes "list_all (val_ok n) ss"
  shows "list_all (\<lambda>p. val_ok n (snd p)) (zip (slice_to ms W) (slice_to ss W))"
proof -
  have "snd p \<in> set ss" if "p \<in> set (zip (slice_to ms W) (slice_to ss W))" for p
  proof -
    from that have "snd p \<in> set (slice_to ss W)"
      by (metis prod.collapse set_zip_rightD)
    with slice_to_subset [of ss W] show ?thesis by blast
  qed
  with assms show ?thesis by (auto simp: list_all_iff)
qed

lemma win_rows_st_pure:
  assumes cl: "closed s0"
  shows "keeps s0 s \<Longrightarrow> length s0 \<le> wm \<Longrightarrow> wm < length s \<Longrightarrow>
         s ! wm = ListO (map RefV rs) \<Longrightarrow> rows_inv s wm rs xs \<Longrightarrow>
         list_all (\<lambda>a. a < length s0) as \<Longrightarrow> win_rows_st s wm as W = (e, s') \<Longrightarrow>
         keeps s0 s' \<and> length s \<le> length s' \<and>
         (\<forall>b<length s. b \<noteq> wm \<longrightarrow> s' ! b = s ! b) \<and>
         (case rows_pure s0 as W of
            Inl er \<Rightarrow> e = Some er
          | Inr ys \<Rightarrow> e = None \<and> wm < length s' \<and>
              (\<exists>rs'. s' ! wm = ListO (map RefV rs') \<and> rows_inv s' wm rs' (xs @ ys)))"
proof (induction as arbitrary: s rs xs)
  case Nil
  then show ?case by auto
next
  case (Cons a as)
  note k = Cons.prems(1) and wm0 = Cons.prems(2) and wm = Cons.prems(3)
    and swm = Cons.prems(4) and inv = Cons.prems(5) and run = Cons.prems(7)
  from Cons.prems(6) have a: "a < length s0" and as: "list_all (\<lambda>a. a < length s0) as"
    by simp_all
  define w where "w = length s"
  define s1 where "s1 = s @ [ListO (replicate 32 (IntV 0))]"
  have k1: "keeps s0 s1" unfolding s1_def by (rule keeps_append [OF k])
  have ta: "team_at s1 (RefV a) = team_at s0 (RefV a)"
    by (rule team_at_keeps [OF k1]) (simp add: a)
  show ?case
  proof (cases "team_at s0 (RefV a)")
    case (Inl er)
    with run ta k1 show ?thesis
      by (simp add: alloc_def s1_def [symmetric] pairs_pure_def) (auto simp: s1_def nth_append)
  next
    case c: (Inr c)
    from closed_team [OF cl c] have cm: "cell_mov c < length s0" and cs: "cell_schedule c < length s0"
      by simp_all
    have lm: "list_at s1 (cell_mov c) = list_at s0 (cell_mov c)"
      by (rule list_at_keeps [OF k1 cm])
    show ?thesis
    proof (cases "list_at s0 (cell_mov c)")
      case (Inl er)
      with run ta c lm k1 show ?thesis
        by (simp add: alloc_def s1_def [symmetric] pairs_pure_def) (auto simp: s1_def nth_append)
    next
      case ms: (Inr ms)
      define s2 where "s2 = s1 @ [ListO (slice_to ms W)]"
      have k2: "keeps s0 s2" unfolding s2_def by (rule keeps_append [OF k1])
      have ls: "list_at s2 (cell_schedule c) = list_at s0 (cell_schedule c)"
        by (rule list_at_keeps [OF k2 cs])
      show ?thesis
      proof (cases "list_at s0 (cell_schedule c)")
        case (Inl er)
        with run ta c lm ms ls k2 show ?thesis
          by (simp add: alloc_def s1_def [symmetric] s2_def [symmetric] pairs_pure_def)
             (auto simp: s2_def s1_def nth_append)
      next
        case ss: (Inr ss)
        define s3 where "s3 = s2 @ [ListO (slice_to ss W)]"
        define ps where "ps = zip (slice_to ms W) (slice_to ss W)"
        have k3: "keeps s0 s3" unfolding s3_def by (rule keeps_append [OF k2])
        have pp: "pairs_pure s0 a W = Inr ps"
          by (simp add: pairs_pure_def c ms ss ps_def)
        have ok: "list_all (\<lambda>p. val_ok (length s0) (snd p)) ps"
          unfolding ps_def by (rule pairs_ok [OF closed_list [OF cl ss]])
        have w0: "length s0 \<le> w" using k by (simp add: w_def keeps_def)
        have w3: "w < length s3" by (simp add: w_def s3_def s2_def s1_def)
        have s3w: "s3 ! w = ListO (map IntV (replicate 32 0))"
          by (simp add: w_def s3_def s2_def s1_def nth_append)
        obtain e4 s4 where cw: "count_wins_st s3 w ps = (e4, s4)" by (cases "count_wins_st s3 w ps")
        note A = count_wins_st_pure [OF k3 w0 w3 s3w ok cw]
        from A have k4: "keeps s0 s4" and len4: "length s4 = length s3"
          and same4: "\<And>b. b \<noteq> w \<Longrightarrow> s4 ! b = s3 ! b" by auto
        have step: "win_rows_st s wm (a # as) W =
            (case e4 of Some er \<Rightarrow> (Some er, s4)
             | None \<Rightarrow> (case list_at s4 wm of Inl er \<Rightarrow> (Some er, s4)
                 | Inr rows \<Rightarrow> win_rows_st (s4[wm := ListO (rows @ [RefV w])]) wm as W))"
          using ta c lm ms ls ss cw
          by (simp add: alloc_def s1_def [symmetric] s2_def [symmetric] s3_def [symmetric]
              ps_def [symmetric] w_def [symmetric] split: option.splits)
        have old: "s3 ! b = s ! b" if "b < length s" for b
          using that by (simp add: s3_def s2_def s1_def nth_append)
        have len34: "length s \<le> length s4" using len4 by (simp add: s3_def s2_def s1_def)
        have old4: "s4 ! b = s ! b" if "b < length s" for b
          using that same4 [of b] old [of b] by (simp add: w_def)
        show ?thesis
        proof (cases "wins_pure s0 ps (replicate 32 0)")
          case (Inl er)
          with A have "e4 = Some er" by simp
          with run step k4 pp Inl len34 old4 show ?thesis by simp
        next
          case ws: (Inr ws)
          with A have e4: "e4 = None" and s4w: "s4 ! w = ListO (map IntV ws)" by simp_all
          have wmw: "wm \<noteq> w" using wm by (simp add: w_def)
          have s4wm: "s4 ! wm = ListO (map RefV rs)"
            using same4 [OF wmw] old [OF wm] swm by simp
          have wm4: "wm < length s4" using wm len4 by (simp add: s3_def s2_def s1_def)
          have la: "list_at s4 wm = Inr (map RefV rs)"
            using s4wm wm4 by (simp add: list_at_def lookup_def)
          define s5 where "s5 = s4[wm := ListO (map RefV (rs @ [w]))]"
          from run step e4 la have run5: "win_rows_st s5 wm as W = (e, s')"
            by (simp add: s5_def)
          have k5: "keeps s0 s5" unfolding s5_def by (rule keeps_update [OF k4 wm0])
          have wm5: "wm < length s5" using wm4 by (simp add: s5_def)
          have s5wm: "s5 ! wm = ListO (map RefV (rs @ [w]))" using wm4 by (simp add: s5_def)
          have "rows_inv s5 wm rs xs"
          proof (rule rows_inv_mono [OF inv])
            show "length s \<le> length s5" using len4 by (simp add: s5_def s3_def s2_def s1_def)
          next
            fix r assume r: "r < length s" "r \<noteq> wm"
            then have "r \<noteq> w" by (simp add: w_def)
            with r show "s5 ! r = s ! r" using same4 [of r] old [of r] by (simp add: s5_def)
          qed
          moreover have "w < length s5" using w3 len4 by (simp add: s5_def)
          moreover have "s5 ! w = ListO (map IntV ws)" using s4w wmw by (simp add: s5_def)
          ultimately have inv5: "rows_inv s5 wm (rs @ [w]) (xs @ [ws])"
            using wmw by (intro rows_inv_snoc) auto
          have len5: "length s \<le> length s5" using len34 by (simp add: s5_def)
          have old5: "s5 ! b = s ! b" if "b < length s" "b \<noteq> wm" for b
            using that old4 [of b] by (simp add: s5_def)
          note IH = Cons.IH [OF k5 wm0 wm5 s5wm inv5 as run5]
          from IH have f1: "keeps s0 s'" and f2: "length s5 \<le> length s'"
            and f3: "\<And>b. b < length s5 \<Longrightarrow> b \<noteq> wm \<Longrightarrow> s' ! b = s5 ! b" by auto
          have g2: "length s \<le> length s'" using f2 len5 by simp
          have g3: "\<forall>b<length s. b \<noteq> wm \<longrightarrow> s' ! b = s ! b"
            using f3 old5 len5 by auto
          from IH pp ws f1 g2 g3
          show ?thesis by (auto split: sum.splits)
        qed
      qed
    qed
  qed
qed

text \<open>The ranking depends on the Team objects of the teams ranked only.\<close>

lemma insert_ranked_cong:
  "\<forall>q\<in>set (p # qs). team_id (h ! fst q) = team_id (h' ! fst q) \<Longrightarrow>
   insert_ranked h p qs = insert_ranked h' p qs"
  by (induction qs) (auto simp: ranks_before_def)

lemma sort_ranked_cong:
  "\<forall>q\<in>set ps. team_id (h ! fst q) = team_id (h' ! fst q) \<Longrightarrow>
   sort_ranked h ps = sort_ranked h' ps"
proof (induction ps)
  case Nil
  then show ?case by simp
next
  case (Cons p ps)
  then have ih: "sort_ranked h ps = sort_ranked h' ps" by simp
  have "insert_ranked h p (sort_ranked h' ps) = insert_ranked h' p (sort_ranked h' ps)"
    by (rule insert_ranked_cong) (use Cons.prems in \<open>auto simp: sort_ranked_props(1)\<close>)
  with ih show ?case by simp
qed

lemma power_points_cong:
  assumes "\<forall>a\<in>set ts. h ! a = h' ! a"
  shows "power_points blend h ds ts W = power_points blend h' ds ts W"
proof -
  let ?f = "\<lambda>h. map2 (\<lambda>d a. (a, final_score blend d (h ! a) W)) ds ts"
  have eq: "?f h = ?f h'"
    by (rule map_cong) (use assms in \<open>auto dest: set_zip_rightD\<close>)
  have "sort_ranked h (?f h') = sort_ranked h' (?f h')"
    by (rule sort_ranked_cong) (use assms in \<open>auto dest: set_zip_rightD\<close>)
  then show ?thesis unfolding power_points_def by (simp only: eq)
qed

lemma keyed_teams:
  "keyed s vs = Inr ks \<Longrightarrow> \<forall>k\<in>set ks. \<exists>c. team_at s (RefV (snd k)) = Inr c"
proof (induction vs arbitrary: ks)
  case Nil
  then show ?case by simp
next
  case (Cons v vs)
  from Cons.prems obtain c ks' where
    c: "team_at s v = Inr c" and ks': "keyed s vs = Inr ks'" and ks: "ks = (cell_id c, addr_of v) # ks'"
    by (auto split: sum.splits)
  from c have "team_at s (RefV (addr_of v)) = Inr c"
    by (cases v) (simp_all add: team_at_def)
  with Cons.IH [OF ks'] ks show ?case by auto
qed

lemma keyed_refs:
  "\<forall>a\<in>set as. \<exists>c. team_at s (RefV a) = Inr c \<Longrightarrow>
   \<exists>ks. keyed s (map RefV as) = Inr ks \<and> map snd ks = as"
  by (induction as) auto

lemma power_rankings_st_pure:
  assumes cl: "closed s0" and self: "self < length s0" and k: "keeps s0 s"
    and run: "power_rankings_st blend s self W = (r, s')"
  shows "keeps s0 s' \<and> outcome s' r = ranking_pure blend s0 self W"
proof -
  define wm where "wm = length s"
  define s1 where "s1 = s @ [ListO []]"
  have k1: "keeps s0 s1" unfolding s1_def by (rule keeps_append [OF k])
  have ta: "teams_attr s1 self = teams_attr s0 self" by (rule teams_attr_keeps [OF k1 self])
  show ?thesis
  proof (cases "teams_attr s0 self")
    case (Inl er)
    from run ta Inl have "r = Inl er" and "s' = s1"
      by (simp_all add: power_rankings_st_def alloc_def s1_def [symmetric])
    with k1 Inl show ?thesis
      by (simp add: outcome_def ranking_pure_def sorted_pure_def)
  next
    case tl: (Inr tl)
    have tl0: "tl < length s0" by (rule closed_league [OF cl tl])
    have la: "list_at s1 tl = list_at s0 tl" by (rule list_at_keeps [OF k1 tl0])
    show ?thesis
    proof (cases "list_at s0 tl")
      case (Inl er)
      from run ta tl la Inl have "r = Inl er" and "s' = s1"
        by (simp_all add: power_rankings_st_def alloc_def s1_def [symmetric])
      with k1 tl Inl show ?thesis
        by (simp add: outcome_def ranking_pure_def sorted_pure_def)
    next
      case tvs: (Inr tvs)
      have ok: "list_all (val_ok (length s0)) tvs" by (rule closed_list [OF cl tvs])
      have ky: "keyed s1 tvs = keyed s0 tvs" by (rule keyed_keeps [OF k1 ok])
      show ?thesis
      proof (cases "keyed s0 tvs")
        case (Inl er)
        from run ta tl la tvs ky Inl have "r = Inl er" and "s' = s1"
          by (simp_all add: power_rankings_st_def alloc_def s1_def [symmetric])
        with k1 tl tvs Inl show ?thesis
          by (simp add: outcome_def ranking_pure_def sorted_pure_def)
      next
        case ks: (Inr ks)
        define ts where "ts = map snd (sort_key fst ks)"
        define s2 where "s2 = s1 @ [ListO (map RefV ts)]"
        define tsa where "tsa = length s1"
        have sp: "sorted_pure s0 self = Inr ts"
          by (simp add: sorted_pure_def tl tvs ks ts_def)
        have "list_all (\<lambda>a. a < length s0) (map snd ks)" by (rule keyed_are_refs [OF ks ok])
        then have ts0: "list_all (\<lambda>a. a < length s0) ts"
          by (simp add: ts_def list_all_iff)
        have tms: "\<forall>a\<in>set ts. \<exists>c. team_at s0 (RefV a) = Inr c"
          using keyed_teams [OF ks] by (auto simp: ts_def)
        have k2: "keeps s0 s2" unfolding s2_def by (rule keeps_append [OF k1])
        have wm0: "length s0 \<le> wm" using k by (simp add: wm_def keeps_def)
        have wm2: "wm < length s2" by (simp add: wm_def s2_def s1_def)
        have s2wm: "s2 ! wm = ListO (map RefV [])"
          by (simp add: wm_def s2_def s1_def nth_append)
        have inv2: "rows_inv s2 wm [] []" by (simp add: rows_inv_def)
        obtain e3 s3 where wr: "win_rows_st s2 wm ts W = (e3, s3)" by (cases "win_rows_st s2 wm ts W")
        note B = win_rows_st_pure [OF cl k2 wm0 wm2 s2wm inv2 ts0 wr]
        from B have k3: "keeps s0 s3" and len3: "length s2 \<le> length s3"
          and same3: "\<And>b. b < length s2 \<Longrightarrow> b \<noteq> wm \<Longrightarrow> s3 ! b = s2 ! b" by auto
        have step: "power_rankings_st blend s self W =
            (case e3 of Some er \<Rightarrow> (Inl er, s3)
             | None \<Rightarrow> (case two_step_dominance_st s3 wm of
                   (Inl er, s4) \<Rightarrow> (Inl er, s4)
                 | (Inr da, s4) \<Rightarrow> power_points_st blend s4 da tsa W))"
          using ta tl la tvs ky ks wr
          by (simp add: power_rankings_st_def alloc_def s1_def [symmetric] ts_def [symmetric]
              s2_def [symmetric] wm_def [symmetric] tsa_def [symmetric] split: option.splits)
        show ?thesis
        proof (cases "rows_pure s0 ts W")
          case (Inl er)
          with B have "e3 = Some er" by simp
          with run step have "r = Inl er" and "s' = s3" by simp_all
          with k3 sp Inl show ?thesis
            by (simp add: outcome_def ranking_pure_def)
        next
          case ys: (Inr ys)
          with B obtain rs where e3: "e3 = None" and wm3: "wm < length s3"
            and s3wm: "s3 ! wm = ListO (map RefV rs)" and inv3: "rows_inv s3 wm rs ys"
            by auto
          define dom where "dom = two_step_dominance ys"
          define s4 where "s4 = s3 @ [ListO (map IntV dom)]"
          define da where "da = length s3"
          have tsd: "two_step_dominance_st s3 wm = (Inr da, s4)"
            using wm3 s3wm rows_inv_matrix [OF inv3]
            by (simp add: two_step_dominance_st_def list_at_def lookup_def alloc_def
                dom_def s4_def da_def)
          have k4: "keeps s0 s4" unfolding s4_def by (rule keeps_append [OF k3])
          have lda: "list_at s4 da = Inr (map IntV dom)"
            by (simp add: list_at_def lookup_def s4_def da_def)
          have tsa2: "tsa < length s2" "tsa \<noteq> wm" by (simp_all add: tsa_def s2_def wm_def s1_def)
          have "s3 ! tsa = s2 ! tsa" by (rule same3 [OF tsa2])
          then have "s4 ! tsa = ListO (map RefV ts)"
            using tsa2(1) len3 by (simp add: s4_def nth_append) (simp add: s2_def tsa_def)
          moreover have "tsa < length s4" using tsa2(1) len3 by (simp add: s4_def)
          ultimately have lts: "list_at s4 tsa = Inr (map RefV ts)"
            by (simp add: list_at_def lookup_def)
          have "list_all (val_ok (length s0)) (map RefV ts)"
            using ts0 by (simp add: list_all_iff)
          from keyed_keeps [OF k4 this] keyed_refs [OF tms]
          obtain ks' where ks': "keyed s4 (map RefV ts) = Inr ks'" and snd': "map snd ks' = ts"
            by auto
          have vw: "\<forall>a\<in>set ts. map view s4 ! a = map view s0 ! a"
          proof
            fix a assume "a \<in> set ts"
            with ts0 have a: "a < length s0" by (simp add: list_all_iff)
            with k4 have "a < length s4" by (simp add: keeps_def)
            with a keeps_nth [OF k4 a] show "map view s4 ! a = map view s0 ! a" by simp
          qed
          define rk where "rk = ranking_vals (power_points blend (map view s0) dom ts W)"
          have pps: "power_points_st blend s4 da tsa W = (Inr (length s4), s4 @ [ListO rk])"
            using lda lts ks' snd' power_points_cong [OF vw, of blend dom W]
            by (simp add: power_points_st_def ints_of_ints alloc_def rk_def)
          from run step e3 tsd pps have r: "r = Inr (length s4)" and s': "s' = s4 @ [ListO rk]"
            by simp_all
          have "keeps s0 s'" unfolding s' by (rule keeps_append [OF k4])
          moreover have "outcome s' r = Inr rk"
            by (simp add: outcome_def r s' list_at_def lookup_def)
          moreover have "ranking_pure blend s0 self W = Inr rk"
            by (simp add: ranking_pure_def sp ys rk_def dom_def)
          ultimately show ?thesis by simp
        qed
      qed
    qed
  qed
qed

lemma replicate_unfold: "replicate (numeral k) x = x # replicate (pred_numeral k) x"
  by (simp add: numeral_eq_Suc)

lemma small_closed: "closed small_store"
  by (simp add: closed_def small_store_def obj_ok_def)

lemma small_run1:
  "fst (power_rankings_st dominance_first small_store 9 1) = Inr 19"
  "outcome (snd (power_rankings_st dominance_first small_store 9 1)) (Inr 19) =
     Inr [TupleV (RefV 3) (NumV (51 / 50)), TupleV (RefV 7) (NumV (1 / 100))]"
  by (simp_all add: power_rankings_st_def alloc_def small_store_def teams_attr_def lookup_def
      list_at_def team_at_def two_step_dominance_st_def power_points_st_def outcome_def
      slice_to_def positive_def incr_val_def nth_append replicate_unfold
      two_step_dominance_def direct_scores_def matrix_vector_def
      power_points_def final_score_def dominance_first_def ranks_before_def ranking_vals_def view_def)

text \<open>
  On every store without dangling references a call only adds objects, and a second
  call on the store left behind has the outcome of the first.
\<close>

lemma power_rankings_leaves_objects:
  assumes "closed s" and "self < length s"
    and "power_rankings_st blend s self W = (r1, s1)"
    and "power_rankings_st blend s1 self W = (r2, s2)"
  shows "length s \<le> length s1 \<and> length s \<le> length s2 \<and>
         (\<forall>a<length s. s1 ! a = s ! a) \<and> (\<forall>a<length s. s2 ! a = s ! a) \<and>
         outcome s2 r2 = outcome s1 r1"
proof -
  from power_rankings_st_pure [OF assms(1,2) keeps_refl assms(3)]
  have k1: "keeps s s1" and o1: "outcome s1 r1 = ranking_pure blend s self W" by simp_all
  from power_rankings_st_pure [OF assms(1,2) k1 assms(4)]
  have k2: "keeps s s2" and o2: "outcome s2 r2 = ranking_pure blend s self W" by simp_all
  from k1 k2 o1 o2 show ?thesis
    by (simp add: keeps_nth) (simp add: keeps_def)
qed


text \<open>The store of a League as constructed has no dangling reference.\<close>

lemma pair_constructed: "League_init 7 2017 pair_response = Inr pair_league"
  by (simp add: League_init_def fetch_league_def fetch_teams_def Let_def pair_response_def
      pair_league_def Team_init_def game_def schedule_entry_def link_schedule_def
      deref_def score_at_def sort_by_id_def)

lemma store_of_pair: "store_of pair_league = small_store" "self_of pair_league = 9"
  by (simp_all add: store_of_def self_of_def pair_league_def small_store_def team_objs_def
      opp_val_def upt_rec)

lemma length_team_objs: "length (concat (map (team_objs h) [0..<n])) = 4 * n"
  by (induction n) (simp_all add: team_objs_def)

lemma length_store_of: "length (store_of L) = 4 * length (objs L) + 2"
  by (simp add: store_of_def length_team_objs)

lemma constructed_store_closed:
  assumes "League_init lid yr r = Inr L"
  shows "closed (store_of L)" and "self_of L < length (store_of L)"
proof -
  let ?n = "length (objs L)"
  let ?N = "4 * ?n + 2"
  have team: "list_all (obj_ok ?N) (team_objs (objs L) i)" if i: "i < ?n" for i
  proof -
    have "list_all (val_ok ?N) (map opp_val (schedule (objs L ! i)))"
      unfolding list_all_length
    proof (intro allI impI)
      fix k assume "k < length (map opp_val (schedule (objs L ! i)))"
      then have k: "k < length (schedule (objs L ! i))" by simp
      from League_init_Inr(4) [OF assms i k] obtain b where
        "b < ?n" "schedule (objs L ! i) ! k = TeamObj b" by blast
      with k show "val_ok ?N (map opp_val (schedule (objs L ! i)) ! k)"
        by (simp add: opp_val_def)
    qed
    moreover have "list_all (val_ok ?N) (map NumV xs)" for xs
      by (simp add: list_all_iff)
    ultimately show ?thesis using i by (simp add: team_objs_def obj_ok_def)
  qed
  have "list_all (obj_ok ?N) (concat (map (team_objs (objs L)) [0..<?n]))"
    using team by (auto simp: list_all_iff)
  moreover have "list_all (val_ok ?N) (map (\<lambda>a. RefV (4 * a + 3)) (teams L))"
    using League_init_Inr(1) [OF assms] by (auto simp: list_all_iff)
  ultimately show "closed (store_of L)"
    unfolding closed_def length_store_of by (simp add: store_of_def obj_ok_def)
  show "self_of L < length (store_of L)"
    by (simp add: self_of_def length_store_of)
qed

text \<open>
  Claim C6. For every League as constructed and every week, a call of \<open>power_rankings\<close>
  on the store of the League only adds objects to the store: every object that was
  there before the call, so the League, its list of teams, every Team and the \<open>mov\<close>,
  \<open>schedule\<close> and \<open>scores\<close> list of every Team, is unchanged after it. A second call
  with the same week, on the store that the first call left behind, leaves them
  unchanged as well and returns a ranking with the same elements as the first, or
  raises the same error.
\<close>

theorem power_rankings_leaves_league:
  assumes "League_init lid yr r = Inr L"
    and "power_rankings_st blend (store_of L) (self_of L) W = (r1, s1)"
    and "power_rankings_st blend s1 (self_of L) W = (r2, s2)"
  shows "length (store_of L) \<le> length s1 \<and> length (store_of L) \<le> length s2 \<and>
         (\<forall>a<length (store_of L). s1 ! a = store_of L ! a) \<and>
         (\<forall>a<length (store_of L). s2 ! a = store_of L ! a) \<and>
         outcome s2 r2 = outcome s1 r1"
  by (rule power_rankings_leaves_objects [OF constructed_store_closed [OF assms(1)] assms(2,3)])

theorem power_rankings_leaves_league_witness:
  "League_init 7 2017 pair_response = Inr pair_league \<and>
   store_of pair_league = small_store \<and> self_of pair_league = 9 \<and>
   fst small_first_run = Inr 19 \<and>
   outcome (snd small_first_run) (fst small_first_run) =
     Inr [TupleV (RefV 3) (NumV (51 / 50)), TupleV (RefV 7) (NumV (1 / 100))] \<and>
   outcome (snd small_second_run) (fst small_second_run) =
     Inr [TupleV (RefV 3) (NumV (51 / 50)), TupleV (RefV 7) (NumV (1 / 100))] \<and>
   snd small_second_run ! 2 = ListO [NumV 10] \<and>
   snd small_second_run ! 8 = ListO [RefV 3, RefV 7]"
proof -
  have r1: "power_rankings_st dominance_first (store_of pair_league) (self_of pair_league) 1 =
              (fst small_first_run, snd small_first_run)"
    by (simp add: small_first_run_def store_of_pair)
  have r2: "power_rankings_st dominance_first (snd small_first_run) (self_of pair_league) 1 =
              (fst small_second_run, snd small_second_run)"
    by (simp add: small_second_run_def store_of_pair)
  note T = power_rankings_leaves_league [OF pair_constructed r1 r2, unfolded store_of_pair]
  from T have same: "\<And>a. a < length small_store \<Longrightarrow> snd small_second_run ! a = small_store ! a"
    by blast
  have "snd small_second_run ! 2 = ListO [NumV 10]"
    using same [of 2] by (simp add: small_store_def)
  moreover have "snd small_second_run ! 8 = ListO [RefV 3, RefV 7]"
    using same [of 8] by (simp add: small_store_def)
  moreover from T have "outcome (snd small_second_run) (fst small_second_run) =
      outcome (snd small_first_run) (fst small_first_run)" by simp
  ultimately show ?thesis
    using pair_constructed store_of_pair small_run1 by (simp add: small_first_run_def)
qed

subsection \<open>Matchup\<close>

text \<open>
  Claim C10. Whatever the matchup data, the second branch of \<open>_fetch_matchup_info\<close> is
  never taken. Whenever a Matchup is built, \<open>home_team\<close> and \<open>home_score\<close> are those of
  \<open>data['teams'][0]\<close>, whichever side the \<open>home\<close> flag marks, and when
  \<open>data['teams'][0]\<close> is not flagged home, or the matchup is a bye, \<open>away_team\<close> and
  \<open>away_score\<close> are \<open>None\<close>, also when a second team is present. A Matchup is built
  exactly when \<open>data['teams']\<close> is not empty and has a second entry where the first
  branch reads it; otherwise the constructor raises IndexError.
\<close>

theorem matchup_home_is_first_team:
  "(\<forall>m. fetch_matchup_info_traced d \<noteq> Inr (SecondBranch, m)) \<and>
   (\<forall>m. Matchup_init d = Inr m \<longrightarrow>
      home_team m = Some (OpponentId (mt_teamId (md_teams d ! 0))) \<and>
      home_score m = Some (mt_score (md_teams d ! 0)) \<and>
      (\<not> mt_home (md_teams d ! 0) \<or> md_bye d \<longrightarrow> away_team m = None \<and> away_score m = None)) \<and>
   ((\<exists>m. Matchup_init d = Inr m) \<longleftrightarrow>
      md_teams d \<noteq> [] \<and> (mt_home (md_teams d ! 0) \<and> \<not> md_bye d \<longrightarrow> 2 \<le> length (md_teams d)))"
  by (auto simp: Matchup_init_def fetch_matchup_info_traced_def teams_item_def
      split: sum.splits if_splits)

theorem matchup_home_is_first_team_witness:
  "Matchup_init away_first =
     Inr \<lparr>home_team = Some (OpponentId 3), home_score = Some 80, away_team = None, away_score = None\<rparr> \<and>
   length (md_teams away_first) = 2 \<and> mt_home (md_teams away_first ! 1)"
  using matchup_home_is_first_team [of away_first]
  by (simp add: away_first_def Matchup_init_def fetch_matchup_info_traced_def teams_item_def)

subsection \<open>Classification of a failed fetch\<close>

lemma str_of_int_500: "str_of_int 500 = ''500''"
  by code_simp

text \<open>
  Claim C7, as amended. A response whose body is not JSON makes the construction of a
  League raise JSONDecodeError, whatever the status. For every response whose body is
  JSON, the construction raises UnknownLeagueException when the status is none of 200,
  401 and 404; when the status is 401 it raises PrivateLeagueException, and when it is
  404 InvalidLeagueException, provided the body carries \<open>error[0].message\<close>, and
  otherwise the error of the failed lookup. With a status other than 200 the outcome
  does not depend on the team data of the body (no team is constructed), and for every
  response a League is returned only when the status is 200; with the status 200 the
  construction is that of \<open>_fetch_teams\<close>.
\<close>

theorem league_errors_by_status:
  "(body r = NotJson \<longrightarrow> League_init lid yr r = Inl JSONDecodeError) \<and>
   (body r \<noteq> NotJson \<and> status_code r \<notin> {200, 401, 404} \<longrightarrow>
      League_init lid yr r =
        Inl (UnknownLeagueException (''Unknown '' @ str_of_int (status_code r) @ '' Error''))) \<and>
   (body r \<noteq> NotJson \<and> status_code r = 401 \<longrightarrow>
      League_init lid yr r =
        (case first_message (map_json_body error_entries (body r)) of
           Inl e \<Rightarrow> Inl e | Inr m \<Rightarrow> Inl (PrivateLeagueException m))) \<and>
   (body r \<noteq> NotJson \<and> status_code r = 404 \<longrightarrow>
      League_init lid yr r =
        (case first_message (map_json_body error_entries (body r)) of
           Inl e \<Rightarrow> Inl e | Inr m \<Rightarrow> Inl (InvalidLeagueException m))) \<and>
   (status_code r \<noteq> 200 \<longrightarrow>
      (\<forall>d ds. body r = JsonObject d \<longrightarrow>
         League_init lid yr (r\<lparr>body := JsonObject (d\<lparr>settings_teams := ds\<rparr>)\<rparr>) =
           League_init lid yr r)) \<and>
   (\<forall>L. League_init lid yr r = Inr L \<longrightarrow> status_code r = 200) \<and>
   (body r \<noteq> NotJson \<and> status_code r = 200 \<longrightarrow>
      League_init lid yr r =
        (case member_of ''leaguesettings'' (map_json_body settings_teams (body r)) of
           Inl e \<Rightarrow> Inl e
         | Inr ds \<Rightarrow>
             fetch_teams \<lparr>league_id = lid, year = yr, objs = [], teams = [], status = 200\<rparr> ds))"
  by (auto simp: League_init_def fetch_league_def Let_def split: sum.splits)

theorem league_errors_by_status_witness:
  "League_init 1 2017 (no_teams_response 401) = Inl (PrivateLeagueException ''denied'') \<and>
   League_init 1 2017 (no_teams_response 404) = Inl (InvalidLeagueException ''denied'') \<and>
   League_init 1 2017 (no_teams_response 500) = Inl (UnknownLeagueException ''Unknown 500 Error'') \<and>
   League_init 1 2017 (no_teams_response 200) =
     Inr \<lparr>league_id = 1, year = 2017, objs = [], teams = [], status = 200\<rparr>"
  using league_errors_by_status [of "no_teams_response 401" 1 2017]
    league_errors_by_status [of "no_teams_response 404" 1 2017]
    league_errors_by_status [of "no_teams_response 500" 1 2017]
    league_errors_by_status [of "no_teams_response 200" 1 2017]
  by (simp add: no_teams_response_def fetch_teams_def sort_by_id_def str_of_int_500)

text \<open>
  Claim C7 as stated, for every response, fails: \<open>r.json()\<close> runs before the status is
  tested, so a response with the status 500 and a body that is not JSON raises
  JSONDecodeError, which is none of the three classified errors.
\<close>

theorem html_error_unclassified_counterexample:
  "status_code html_error_response = 500 \<and>
   League_init 1 2017 html_error_response = Inl JSONDecodeError"
  by (simp add: html_error_response_def League_init_def fetch_league_def)

text \<open>
  \<open>scoreboard\<close> parses and classifies its response in the same way, after it has stored
  the status in the League.
\<close>

lemma scoreboard_errors_by_status:
  "(sb_body r = NotJson \<longrightarrow>
      scoreboard L r = (Inl JSONDecodeError, L\<lparr>status := sb_status_code r\<rparr>)) \<and>
   (sb_body r \<noteq> NotJson \<and> sb_status_code r \<notin> {200, 401, 404} \<longrightarrow>
      scoreboard L r =
        (Inl (UnknownLeagueException (''Unknown '' @ str_of_int (sb_status_code r) @ '' Error'')),
         L\<lparr>status := sb_status_code r\<rparr>))"
  by (simp add: scoreboard_def Let_def)

subsection \<open>The simulation schedule\<close>

text \<open>
  Claim C9. Every call of \<open>schedule_for_sim\<close> raises NameError for the name \<open>data\<close>,
  whatever the League and whatever the scoreboard feed would answer: the name is bound
  neither in the method nor in the module. The method never returns a schedule list, and
  the League is as it was before the call.
\<close>

theorem schedule_for_sim_raises_NameError:
  "schedule_for_sim boards L = (Inl (NameError ''data''), L) \<and>
   (\<forall>sched. fst (schedule_for_sim boards L) \<noteq> Inr sched)"
  by (simp add: schedule_for_sim_def final_week_of_def names_in_scope_def)

end
